theory Spec2Isabelle
  imports Main "HOL-Library.AList"
begin

section \<open>JavaScript strings\<close>

text \<open>
  A JavaScript string is a sequence of UTF-16 code units.  The model is \<^typ>\<open>string\<close>:
  a list of \<^typ>\<open>char\<close>, each standing for the code unit with the same number, so it
  covers the strings whose code units are below 256 (ASCII and Latin-1).  \<open>length\<close> is the
  \<open>.length\<close> of the source.
\<close>

definition dquote :: char where
  "dquote = CHR 0x22"

definition newline :: char where
  "newline = CHR 0x0A"

definition code_unit :: "char \<Rightarrow> nat" where
  "code_unit c = of_char c"

text \<open>White space and line terminators of ECMAScript among the code units below 256:
  TAB, LF, VT, FF, CR, SP and NBSP.  \<open>trim\<close> and the class \<open>\s\<close> use this set.\<close>

definition isWhiteSpace :: "char \<Rightarrow> bool" where
  "isWhiteSpace c \<longleftrightarrow>
     c = CHR 0x09 \<or> c = CHR 0x0A \<or> c = CHR 0x0B \<or> c = CHR 0x0C \<or> c = CHR 0x0D \<or>
     c = CHR 0x20 \<or> c = CHR 0xA0"

definition isLineTerminator :: "char \<Rightarrow> bool" where
  "isLineTerminator c \<longleftrightarrow> c = CHR 0x0A \<or> c = CHR 0x0D"

definition isDigit :: "char \<Rightarrow> bool" where
  "isDigit c \<longleftrightarrow> 48 \<le> code_unit c \<and> code_unit c \<le> 57"

definition isUpper :: "char \<Rightarrow> bool" where
  "isUpper c \<longleftrightarrow>
     (65 \<le> code_unit c \<and> code_unit c \<le> 90) \<or>
     (192 \<le> code_unit c \<and> code_unit c \<le> 222 \<and> code_unit c \<noteq> 215)"

definition isLower :: "char \<Rightarrow> bool" where
  "isLower c \<longleftrightarrow>
     (97 \<le> code_unit c \<and> code_unit c \<le> 122) \<or>
     (224 \<le> code_unit c \<and> code_unit c \<le> 254 \<and> code_unit c \<noteq> 247)"

text \<open>The word characters of \<open>\b\<close>: \<open>[A-Za-z0-9_]\<close>.\<close>

definition isWordChar :: "char \<Rightarrow> bool" where
  "isWordChar c \<longleftrightarrow>
     (65 \<le> code_unit c \<and> code_unit c \<le> 90) \<or> (97 \<le> code_unit c \<and> code_unit c \<le> 122) \<or>
     isDigit c \<or> c = CHR ''_''"

text \<open>\<open>String.prototype.toLowerCase\<close>: below 256 the letters with a lower-case partner
  are A-Z and the Latin-1 capitals 0xC0-0xDE (without the multiplication sign 0xD7); the
  partner is 32 higher.\<close>

definition lowerChar :: "char \<Rightarrow> char" where
  "lowerChar c = (if isUpper c then char_of (code_unit c + 32) else c)"

definition toLowerCase :: "string \<Rightarrow> string" where
  "toLowerCase s = map lowerChar s"

text \<open>\<open>Canonicalize\<close> of a regular expression without the \<open>u\<close> flag: with
  \<open>ignoreCase\<close> a code unit is replaced by its upper-case partner when that is a single
  code unit.  Below 256 these are a-z and 0xE0-0xFE (without the division sign 0xF7); the
  images of 0xB5 and 0xFF lie above 255 and are the image of no other code unit below 256,
  0xDF has a two-unit upper case, so the three stay as they are.\<close>

definition canonicalize :: "bool \<Rightarrow> char \<Rightarrow> char" where
  "canonicalize ignoreCase c =
     (if ignoreCase \<and> isLower c then char_of (code_unit c - 32) else c)"

text \<open>The five low bits of a letter (least significant first): 1 to 26 in the ASCII
  columns, anything but 23 and 31 in the Latin-1 columns (\<open>b7\<close> set).  The bitwise
  forms of the classes, proved after the definitions, use it.\<close>

definition low5_letter :: "bool \<Rightarrow> bool \<Rightarrow> bool \<Rightarrow> bool \<Rightarrow> bool \<Rightarrow> bool \<Rightarrow> bool" where
  "low5_letter b0 b1 b2 b3 b4 b7 =
     (if b7 then \<not> (b4 \<and> b2 \<and> b1 \<and> b0)
      else (b0 \<or> b1 \<or> b2 \<or> b3 \<or> b4) \<and> \<not> (b4 \<and> b3 \<and> (b2 \<or> (b1 \<and> b0))))"

text \<open>\<open>String.prototype.trim\<close>.\<close>

definition trim :: "string \<Rightarrow> string" where
  "trim s = rev (dropWhile isWhiteSpace (rev (dropWhile isWhiteSpace s)))"

text \<open>\<open>String.prototype.split\<close> with a one-character separator string: \<open>cur\<close> is the
  piece being collected.  The empty string splits into one empty piece.\<close>

fun split_from :: "char \<Rightarrow> string \<Rightarrow> string \<Rightarrow> string list" where
  "split_from sep cur [] = [cur]"
| "split_from sep cur (c # cs) =
     (if c = sep then cur # split_from sep [] cs else split_from sep (cur @ [c]) cs)"

definition split :: "char \<Rightarrow> string \<Rightarrow> string list" where
  "split sep s = split_from sep [] s"

section \<open>Regular expressions\<close>

text \<open>
  The patterns of the source use literal characters, \<open>.\<close>, \<open>\d\<close>, \<open>\s\<close>, the class
  \<open>[^>]\<close>, the assertions \<open>^\<close>, \<open>$\<close> and \<open>\b\<close>, sequence, alternation and the greedy
  quantifiers \<open>*\<close>, \<open>+\<close> and \<open>?\<close>.  No pattern reads a capture, so groups only group.
\<close>

datatype regex =
    Str string
  | Dot
  | Digit
  | Space
  | NotChar char
  | Bol
  | Eol
  | WordB
  | Cat regex regex
  | Alt regex regex
  | Star regex
  | Plus regex
  | Opt regex

text \<open>A matcher state: the code unit before the current position (\<open>None\<close> at index 0)
  and the input from the current position on.\<close>

type_synonym mstate = "char option \<times> string"

fun literal :: "bool \<Rightarrow> string \<Rightarrow> mstate \<Rightarrow> mstate option" where
  "literal ic [] st = Some st"
| "literal ic (p # ps) (prev, []) = None"
| "literal ic (p # ps) (prev, c # cs) =
     (if canonicalize ic p = canonicalize ic c then literal ic ps (Some c, cs) else None)"

fun one_of :: "(char \<Rightarrow> bool) \<Rightarrow> mstate \<Rightarrow> mstate list" where
  "one_of P (prev, []) = []"
| "one_of P (prev, c # cs) = (if P c then [(Some c, cs)] else [])"

definition assertion :: "bool \<Rightarrow> mstate \<Rightarrow> mstate list" where
  "assertion b st = (if b then [st] else [])"

definition wordBefore :: "mstate \<Rightarrow> bool" where
  "wordBefore st = (case fst st of None \<Rightarrow> False | Some c \<Rightarrow> isWordChar c)"

definition wordAfter :: "mstate \<Rightarrow> bool" where
  "wordAfter st = (case snd st of [] \<Rightarrow> False | c # _ \<Rightarrow> isWordChar c)"

definition progress :: "mstate \<Rightarrow> mstate \<Rightarrow> bool" where
  "progress st st' \<longleftrightarrow> length (snd st') < length (snd st)"

text \<open>The greedy \<open>RepeatMatcher\<close> with no upper bound: first one more iteration (an
  iteration that consumes nothing is rejected), then the rest of the pattern.  Every
  iteration consumes a code unit, so there are at most as many as the input is long; the
  first argument counts them down.\<close>

primrec repeat :: "nat \<Rightarrow> (mstate \<Rightarrow> mstate list) \<Rightarrow> mstate \<Rightarrow> mstate list" where
  "repeat 0 m st = [st]"
| "repeat (Suc n) m st = concat (map (repeat n m) (filter (progress st) (m st))) @ [st]"

text \<open>\<open>ends ic r st\<close> lists the states in which a match of \<open>r\<close> that starts in \<open>st\<close>
  can end, in the order in which the backtracking matcher of ECMAScript tries them.
  \<open>ic\<close> is the \<open>ignoreCase\<close> flag.\<close>

primrec ends :: "bool \<Rightarrow> regex \<Rightarrow> mstate \<Rightarrow> mstate list" where
  "ends ic (Str s) st = (case literal ic s st of None \<Rightarrow> [] | Some st' \<Rightarrow> [st'])"
| "ends ic Dot st = one_of (\<lambda>c. \<not> isLineTerminator c) st"
| "ends ic Digit st = one_of isDigit st"
| "ends ic Space st = one_of isWhiteSpace st"
| "ends ic (NotChar x) st = one_of (\<lambda>c. canonicalize ic c \<noteq> canonicalize ic x) st"
| "ends ic Bol st = assertion (fst st = None) st"
| "ends ic Eol st = assertion (snd st = []) st"
| "ends ic WordB st = assertion (wordBefore st \<noteq> wordAfter st) st"
| "ends ic (Cat r1 r2) st = concat (map (ends ic r2) (ends ic r1 st))"
| "ends ic (Alt r1 r2) st = ends ic r1 st @ ends ic r2 st"
| "ends ic (Star r) st = repeat (length (snd st)) (ends ic r) st"
| "ends ic (Plus r) st =
     concat (map (\<lambda>st'. repeat (length (snd st')) (ends ic r) st') (ends ic r st))"
| "ends ic (Opt r) st = filter (progress st) (ends ic r st) @ [st]"

text \<open>The number of code units the first match at a position consumes.\<close>

definition match_len :: "bool \<Rightarrow> regex \<Rightarrow> char option \<Rightarrow> string \<Rightarrow> nat option" where
  "match_len ic r prev s =
     (case ends ic r (prev, s) of [] \<Rightarrow> None | st # _ \<Rightarrow> Some (length s - length (snd st)))"

text \<open>\<open>RegExp.prototype.test\<close> of a pattern without the \<open>g\<close> and \<open>y\<close> flags: is there
  a match at some index, tried from the left.\<close>

fun search :: "bool \<Rightarrow> regex \<Rightarrow> char option \<Rightarrow> string \<Rightarrow> bool" where
  "search ic r prev [] = (match_len ic r prev [] \<noteq> None)"
| "search ic r prev (c # cs) =
     (if match_len ic r prev (c # cs) \<noteq> None then True else search ic r (Some c) cs)"

definition test :: "bool \<Rightarrow> regex \<Rightarrow> string \<Rightarrow> bool" where
  "test ic r s = search ic r None s"

text \<open>\<open>String.prototype.replace\<close> with a pattern that has the \<open>g\<close> flag and a
  replacement without \<open>$\<close>: every match, found from the left after the end of the one
  before, is replaced.  \<open>skip\<close> counts the code units of the current match still to pass;
  after an empty match the search resumes one code unit further.\<close>

fun replace_from :: "bool \<Rightarrow> regex \<Rightarrow> string \<Rightarrow> nat \<Rightarrow> char option \<Rightarrow> string \<Rightarrow> string" where
  "replace_from ic r rep skip prev [] =
     (case match_len ic r prev [] of None \<Rightarrow> [] | Some _ \<Rightarrow> rep)"
| "replace_from ic r rep skip prev (c # cs) =
     (case skip of
        Suc k \<Rightarrow> replace_from ic r rep k (Some c) cs
      | 0 \<Rightarrow>
         (case match_len ic r prev (c # cs) of
            None \<Rightarrow> c # replace_from ic r rep 0 (Some c) cs
          | Some 0 \<Rightarrow> rep @ c # replace_from ic r rep 0 (Some c) cs
          | Some (Suc k) \<Rightarrow> rep @ replace_from ic r rep k (Some c) cs))"

definition replaceAll :: "bool \<Rightarrow> regex \<Rightarrow> string \<Rightarrow> string \<Rightarrow> string" where
  "replaceAll ic r rep s = replace_from ic r rep 0 None s"

text \<open>\<open>String.prototype.split\<close> with a pattern without captures: \<open>cur\<close> is the piece
  since the end of the last separator.  A match is a separator unless it is empty and the
  piece is empty too; no match is tried at the end of the input.\<close>

fun split_re_from :: "bool \<Rightarrow> regex \<Rightarrow> string \<Rightarrow> nat \<Rightarrow> char option \<Rightarrow> string \<Rightarrow> string list" where
  "split_re_from ic r cur skip prev [] = [cur]"
| "split_re_from ic r cur skip prev (c # cs) =
     (case skip of
        Suc k \<Rightarrow> split_re_from ic r cur k (Some c) cs
      | 0 \<Rightarrow>
         (case match_len ic r prev (c # cs) of
            None \<Rightarrow> split_re_from ic r (cur @ [c]) 0 (Some c) cs
          | Some 0 \<Rightarrow>
              (if cur = [] then split_re_from ic r [c] 0 (Some c) cs
               else cur # split_re_from ic r [c] 0 (Some c) cs)
          | Some (Suc k) \<Rightarrow> cur # split_re_from ic r [] k (Some c) cs))"

definition split_re :: "bool \<Rightarrow> regex \<Rightarrow> string \<Rightarrow> string list" where
  "split_re ic r s =
     (if s = [] then (case match_len ic r None [] of None \<Rightarrow> [[]] | Some _ \<Rightarrow> [])
      else split_re_from ic r [] 0 None s)"

text \<open>Alternatives of literal words, as in \<open>/noticed|saw that|came across/\<close>.\<close>

fun alts :: "regex list \<Rightarrow> regex" where
  "alts [] = Str []"
| "alts [r] = r"
| "alts (r # rs) = Alt r (alts rs)"

definition words :: "string list \<Rightarrow> regex" where
  "words ws = alts (map Str ws)"

section \<open>The CSV reader\<close>

text \<open>A row object: its properties in insertion order, read with \<open>get\<close>.  The reader
  writes string values only.\<close>

type_synonym row = "(string \<times> string) list"

definition get :: "row \<Rightarrow> string \<Rightarrow> string option" where
  "get r k = map_of r k"

text \<open>\<open>row[header] = value\<close>.  On a plain object the assignment to \<open>__proto__\<close> with a
  string value goes to the setter of \<open>Object.prototype\<close>, which ignores it.\<close>

definition set_prop :: "string \<Rightarrow> string \<Rightarrow> row \<Rightarrow> row" where
  "set_prop k v r = (if k = ''__proto__'' then r else AList.update k v r)"

text \<open>\<open>.replace(/^"|"$/g, '')\<close>.\<close>

definition strip_quotes :: "string \<Rightarrow> string" where
  "strip_quotes s =
     replaceAll False (Alt (Cat Bol (Str [dquote])) (Cat (Str [dquote]) Eol)) [] s"

definition clean_field :: "string \<Rightarrow> string" where
  "clean_field s = strip_quotes (trim s)"

text \<open>The state of the field splitter: \<open>values\<close>, \<open>current\<close> and \<open>inQuotes\<close>.\<close>

record scan =
  "values" :: "string list"
  current :: string
  inQuotes :: bool

definition scan_start :: scan where
  "scan_start = \<lparr>values = [], current = [], inQuotes = False\<rparr>"

text \<open>The body of the \<open>for\<close> loop over the characters of a line.\<close>

definition scan_char :: "scan \<Rightarrow> char \<Rightarrow> scan" where
  "scan_char s c =
     (if c = dquote then s\<lparr>inQuotes := \<not> inQuotes s\<rparr>
      else if c = CHR '','' \<and> \<not> inQuotes s then
        s\<lparr>values := values s @ [clean_field (current s)], current := []\<rparr>
      else s\<lparr>current := current s @ [c]\<rparr>)"

definition scan_line :: "scan \<Rightarrow> string \<Rightarrow> scan" where
  "scan_line s line = foldl scan_char s line"

text \<open>The inner \<open>while\<close> loop.  The argument holds \<open>lines[i]\<close>, \<open>lines[i+1]\<close>, ...; the
  result is the state at the \<open>break\<close> and the lines after the last one read.  The loop is
  entered with \<open>i < lines.length\<close> only, so the first equation is never used.\<close>

fun scan_record :: "string list \<Rightarrow> scan \<Rightarrow> scan \<times> string list" where
  "scan_record [] s = (s, [])"
| "scan_record (line # rest) s =
     (let s' = scan_line s line in
      if inQuotes s' \<and> rest \<noteq> [] then scan_record rest (s'\<lparr>current := current s' @ [newline]\<rparr>)
      else (s', rest))"

text \<open>\<open>values[idx] || ''\<close>.\<close>

definition value_at :: "string list \<Rightarrow> nat \<Rightarrow> string" where
  "value_at vs idx = (if idx < length vs then vs ! idx else [])"

text \<open>\<open>headers.forEach((header, idx) => { row[header] = values[idx] || ''; })\<close>.\<close>

definition make_row :: "string list \<Rightarrow> string list \<Rightarrow> row" where
  "make_row headers vs =
     foldl (\<lambda>r (idx, header). set_prop header (value_at vs idx) r) [] (enumerate 0 headers)"

text \<open>\<open>row.k && row.k.trim().length > 0\<close>, read as a condition.\<close>

definition has_field :: "row \<Rightarrow> string \<Rightarrow> bool" where
  "has_field r k = (case get r k of None \<Rightarrow> False | Some v \<Rightarrow> v \<noteq> [] \<and> length (trim v) > 0)"

definition field_of :: "row \<Rightarrow> string \<Rightarrow> string" where
  "field_of r k = (case get r k of None \<Rightarrow> [] | Some v \<Rightarrow> v)"

text \<open>The two nested \<open>if\<close>s before \<open>rows.push(row)\<close>.\<close>

definition meaningful :: "row \<Rightarrow> bool" where
  "meaningful r =
     (let hasBody = has_field r ''body'';
          hasSubject = has_field r ''subject'';
          hasRecipient = has_field r ''recipient''
      in (hasBody \<or> hasSubject \<or> hasRecipient) \<and>
         (\<not> hasBody \<or> length (trim (field_of r ''body'')) \<ge> 10))"

definition finish_record :: "scan \<Rightarrow> string list" where
  "finish_record s = values s @ [clean_field (current s)]"

lemma scan_record_shorter: "length (snd (scan_record ls s)) \<le> length ls"
  by (induction ls arbitrary: s) (auto simp: Let_def le_SucI)

text \<open>The outer \<open>while\<close> loop, on the lines from \<open>lines[i]\<close> on.\<close>

function parse_rows :: "string list \<Rightarrow> string list \<Rightarrow> row list" where
  "parse_rows headers [] = []"
| "parse_rows headers (l # ls) =
     (let res = scan_record (l # ls) scan_start;
          r = make_row headers (finish_record (fst res))
      in (if meaningful r then [r] else []) @ parse_rows headers (snd res))"
  by pat_completeness auto
termination
proof (relation "measure (\<lambda>(headers, ls). length ls)")
  show "wf (measure (\<lambda>(headers, ls). length ls))" by simp
next
  fix headers :: "string list" and l :: string and ls :: "string list" and res
  assume "res = scan_record (l # ls) scan_start"
  moreover have "length (snd (scan_record (l # ls) scan_start)) \<le> length ls"
    using scan_record_shorter [of ls] by (simp add: Let_def)
  ultimately show "((headers, snd res), (headers, l # ls)) \<in> measure (\<lambda>(headers, ls). length ls)"
    by simp
qed

definition parse_headers :: "string \<Rightarrow> string list" where
  "parse_headers line = map (\<lambda>h. toLowerCase (strip_quotes (trim h))) (split CHR '','' line)"

definition parseCSV :: "string \<Rightarrow> row list" where
  "parseCSV text =
     (let lines = split newline text in
      if length lines < 2 then []
      else parse_rows (parse_headers (hd lines)) (tl lines))"

section \<open>The template classifier\<close>

record indicator =
  pattern :: regex
  weight :: nat

record template =
  name :: string
  description :: string
  indicators :: "indicator list"
  minScore :: nat

definition ind :: "regex \<Rightarrow> nat \<Rightarrow> indicator" where
  "ind r w = \<lparr>pattern = r, weight = w\<rparr>"

text \<open>\<open>x.*y\<close>.\<close>

definition then_later :: "regex \<Rightarrow> regex \<Rightarrow> regex" where
  "then_later x y = Cat x (Cat (Star Dot) y)"

text \<open>\<open>xs?\<close>: the word with an optional final s.\<close>

definition plural :: "string \<Rightarrow> regex" where
  "plural w = Cat (Str w) (Opt (Str ''s''))"

definition RESEARCH_BASED :: template where
  "RESEARCH_BASED = \<lparr>
     name = ''Research-Based Outreach'',
     description = ''Personalized emails that reference specific research about the prospect or their organization, followed by a relevant pain point question and social proof'',
     indicators = [
       ind (words [''noticed'', ''saw that'', ''came across'', ''read about'', ''read that'',
                   ''saw your'', ''found that'']) 2,
       ind (words [''wondering if'', ''curious if'', ''curious about'', ''interested to know'']) 2,
       ind (alts [Str ''was able to'', Str ''were able to'', Str ''achieved'', Str ''accomplished'',
                  Str ''saw a'', then_later (Str ''helped'') (Str ''achieve'')]) 2,
       ind (then_later
              (alts [plural ''challenge'', plural ''issue'', plural ''pain point'', plural ''concern''])
              (words [''facing'', ''experiencing'', ''dealing with''])) 1],
     minScore = 4\<rparr>"

definition PROBLEM_SOLUTION :: template where
  "PROBLEM_SOLUTION = \<lparr>
     name = ''Problem + Solution'',
     description = ''Direct approach identifying a common problem followed by proposed solution, often without personalization'',
     indicators = [
       ind (words [''struggling with'', ''challenges with'', ''difficulty'', ''problem with'',
                   ''issue with'']) 2,
       ind (words [''solution'', ''solve'', ''address'', ''help with'', ''can help'']) 2,
       ind (Cat (Str ''we '') (words [''offer'', ''provide'', ''have'', ''specialize''])) 1],
     minScore = 3\<rparr>"

definition MEETING_REQUEST :: template where
  "MEETING_REQUEST = \<lparr>
     name = ''Direct Meeting Request'',
     description = ''Straightforward ask for a meeting or call, often with minimal context'',
     indicators = [
       ind (alts [Str ''schedule'', Str ''calendar'', Str ''meeting'', Str ''call'', Str ''connect'',
                  Cat (Str ''time to '') (words [''chat'', ''talk'', ''discuss''])]) 2,
       ind (alts [Str ''available'', Str ''free'', Str ''open'',
                  Cat (Str ''have '') (words [''time'', ''15 minutes''])]) 1,
       ind (alts [Cat (Str ''would you '') (words [''be'', ''have'']),
                  Cat (Str ''are you '') (words [''available'', ''free''])]) 1],
     minScore = 3\<rparr>"

definition FOLLOW_UP :: template where
  "FOLLOW_UP = \<lparr>
     name = ''Follow-Up'',
     description = ''Checking in on previous communication or continuing an existing conversation'',
     indicators = [
       ind (words [''following up'', ''follow up'', ''checking in'', ''touching base'',
                   ''circling back'']) 3,
       ind (alts [Str ''previous'', Str ''earlier'',
                  Cat (Str ''last '') (words [''week'', ''email'', ''conversation'']),
                  Str (''haven'' @ [CHR 0x27] @ ''t heard'')]) 2],
     minScore = 3\<rparr>"

definition VALUE_PROP :: template where
  "VALUE_PROP = \<lparr>
     name = ''Value Proposition'',
     description = ''Leading with company benefits, ROI, or results without specific personalization'',
     indicators = [
       ind (words [''we help'', ''we work with'', ''we'' @ [CHR 0x27] @ ''ve helped'',
                   ''we partner'']) 2,
       ind (words [''increase'', ''reduce'', ''improve'', ''save'', ''grow'']) 1,
       ind (Alt (Cat (Plus Digit) (Str ''%'')) (Cat (Plus Digit) (Str ''x''))) 1],
     minScore = 3\<rparr>"

definition EVENT_BASED :: template where
  "EVENT_BASED = \<lparr>
     name = ''Event-Based Outreach'',
     description = ''Leveraging a conference, event, or specific timing for outreach'',
     indicators = [
       ind (words [''conference'', ''summit'', ''meeting'', ''event'', ''attending'']) 2,
       ind (alts [Str (''while you'' @ [CHR 0x27] @ ''re''), Str ''will be'',
                  Cat (Str ''in '') (words [''new york'', ''boston'', ''chicago'', ''san francisco'',
                                            ''new orleans''])]) 2,
       ind (words [''next week'', ''coming up'', ''around the corner'']) 1],
     minScore = 3\<rparr>"

definition SOCIAL_PROOF :: template where
  "SOCIAL_PROOF = \<lparr>
     name = ''Social Proof Heavy'',
     description = ''Multiple references to other clients, case studies, or results to build credibility'',
     indicators = [
       ind (then_later
              (words [''university'', ''college'', ''school'', ''hospital'', ''health system''])
              (words [''achieved'', ''saw'', ''increased''])) 2,
       ind (words [''similar to yours'', ''others like you'', ''clients like'']) 2,
       ind (words [''case study'', ''success story'']) 2],
     minScore = 3\<rparr>"

definition QUESTION_OPENER :: template where
  "QUESTION_OPENER = \<lparr>
     name = ''Question Opener'',
     description = ''Opens with a direct question to engage prospect'',
     indicators = [
       ind (Cat Bol (Cat (then_later (words [''hi'', ''hello'', ''hey'']) (Str ''?'')) Space)) 2,
       ind (Cat Bol (Cat (words [''are you'', ''do you'', ''have you'', ''would you'', ''can you''])
                         WordB)) 2],
     minScore = 2\<rparr>"

text \<open>The registry, in the order of \<open>Object.entries(TEMPLATES)\<close>.  Every pattern has the
  \<open>i\<close> flag and no other.\<close>

definition TEMPLATES :: "template list" where
  "TEMPLATES = [RESEARCH_BASED, PROBLEM_SOLUTION, MEETING_REQUEST, FOLLOW_UP, VALUE_PROP,
                EVENT_BASED, SOCIAL_PROOF, QUESTION_OPENER]"

record classification =
  type_name :: string
  score :: nat
  cdescription :: string

text \<open>\<open>/<[^>]*>/g\<close>, \<open>/\s+/g\<close> and the signature markers.\<close>

definition tag_re :: regex where
  "tag_re = Cat (Str ''<'') (Cat (Star (NotChar CHR ''>'')) (Str ''>''))"

definition spaces_re :: regex where
  "spaces_re = Plus Space"

definition signature_re :: regex where
  "signature_re = words [''--'', ''sincerely'', ''best regards'', ''regards'', ''thanks'',
                         ''thank you'', ''cheers'']"

definition cleanBody :: "string \<Rightarrow> string" where
  "cleanBody emailBody =
     trim (replaceAll False spaces_re '' '' (replaceAll False tag_re [] (toLowerCase emailBody)))"

text \<open>\<open>cleanBody.split(...)[0]\<close>.  No marker is empty, so the split has a first piece
  (\<open>signature_split_nonempty\<close> below).\<close>

definition bodyWithoutSig :: "string \<Rightarrow> string" where
  "bodyWithoutSig emailBody = hd (split_re True signature_re (cleanBody emailBody))"

text \<open>The inner \<open>for\<close> loop: the sum of the weights of the indicators that match.\<close>

definition template_score :: "string \<Rightarrow> template \<Rightarrow> nat" where
  "template_score txt t =
     foldl (\<lambda>sc i. if test True (pattern i) txt then sc + weight i else sc) 0 (indicators t)"

text \<open>The outer \<open>for\<close> loop on \<open>(bestMatch, highestScore)\<close>.\<close>

definition consider_template ::
  "string \<Rightarrow> classification option \<times> nat \<Rightarrow> template \<Rightarrow> classification option \<times> nat" where
  "consider_template txt best t =
     (let sc = template_score txt t in
      if sc \<ge> minScore t \<and> sc > snd best then
        (Some \<lparr>type_name = name t, score = sc, cdescription = description t\<rparr>, sc)
      else best)"

definition best_match :: "template list \<Rightarrow> string \<Rightarrow> classification option" where
  "best_match ts txt = fst (foldl (consider_template txt) (None, 0) ts)"

definition fallback :: "string \<Rightarrow> classification" where
  "fallback txt =
     (let wordCount = length (split_re False spaces_re txt) in
      if wordCount < 30 then
        \<lparr>type_name = ''Short & Direct'', score = 1,
         cdescription = ''Brief, concise message under 30 words''\<rparr>
      else if wordCount > 150 then
        \<lparr>type_name = ''Long-Form Narrative'', score = 1,
         cdescription = ''Detailed, comprehensive message over 150 words''\<rparr>
      else
        \<lparr>type_name = ''Standard Outreach'', score = 0,
         cdescription = ''General outreach email without distinct pattern''\<rparr>)"

definition analyzeTemplate :: "string \<Rightarrow> classification" where
  "analyzeTemplate emailBody =
     (if emailBody = [] \<or> length (trim emailBody) = 0 then
        \<lparr>type_name = ''Empty/No Body'', score = 0, cdescription = ''Email has no body content''\<rparr>
      else
        (case best_match TEMPLATES (bodyWithoutSig emailBody) of
           None \<Rightarrow> fallback (bodyWithoutSig emailBody)
         | Some m \<Rightarrow> m))"

section \<open>Numbers\<close>

text \<open>
  The counts of the aggregator are integers far below \<open>2^53\<close>, exact as JavaScript
  numbers.  The rates and the average length go through a division and a multiplication of
  doubles; the model rounds to the nearest double (53 bits, ties to even) in each.  A
  finite non-negative double is the fraction \<open>Finite p q\<close>; overflow and subnormal results
  do not arise from quotients of such counts and are not modelled.
\<close>

datatype number = NaN | Infinity | Finite int int

function scale_up :: "int \<Rightarrow> int \<Rightarrow> int \<Rightarrow> int \<times> int" where
  "scale_up p q e =
     (if 0 < p \<and> p < q * 4503599627370496 then scale_up (2 * p) q (e - 1) else (p, e))"
  by pat_completeness auto
termination
  by (relation "measure (\<lambda>(p, q, e). nat (q * 4503599627370496 - p))") auto

function scale_down :: "int \<Rightarrow> int \<Rightarrow> int \<Rightarrow> int \<times> int" where
  "scale_down p q e =
     (if 0 < q \<and> q * 9007199254740992 \<le> p then scale_down p (2 * q) (e + 1) else (q, e))"
  by pat_completeness auto
termination
  by (relation "measure (\<lambda>(p, q, e). nat (p - q * 9007199254740992 + 1))") auto

text \<open>The integer nearest to \<open>p / q\<close>, the even one of two.\<close>

definition round_even :: "int \<Rightarrow> int \<Rightarrow> int" where
  "round_even p q =
     (let m = p div q; r = p mod q in
      if 2 * r > q \<or> (2 * r = q \<and> odd m) then m + 1 else m)"

text \<open>The double nearest to \<open>p / q\<close>, for \<open>0 \<le> p\<close> and \<open>0 < q\<close>: the fraction is scaled
  by a power of two into \<open>[2^52, 2^53)\<close>, rounded to an integer and scaled back.\<close>

definition to_double :: "int \<Rightarrow> int \<Rightarrow> number" where
  "to_double p q =
     (if p = 0 then Finite 0 1
      else
        (let up = scale_up p q 0;
             down = scale_down (fst up) q (snd up);
             m = round_even (fst up) (fst down);
             e = snd down
         in if 0 \<le> e then Finite (m * 2 ^ nat e) 1 else Finite m (2 ^ nat (- e))))"

text \<open>\<open>a / b\<close> on two counts.\<close>

definition divide :: "nat \<Rightarrow> nat \<Rightarrow> number" where
  "divide a b =
     (if b = 0 then (if a = 0 then NaN else Infinity) else to_double (int a) (int b))"

text \<open>\<open>x * 100\<close>.\<close>

definition times100 :: "number \<Rightarrow> number" where
  "times100 x = (case x of Finite p q \<Rightarrow> to_double (100 * p) q | _ \<Rightarrow> x)"

function digits :: "int \<Rightarrow> string" where
  "digits n = (if n < 10 then [char_of (48 + n)] else digits (n div 10) @ [char_of (48 + n mod 10)])"
  by pat_completeness auto
termination
  by (relation "measure nat") auto

text \<open>\<open>Number.prototype.toFixed(1)\<close>: the integer \<open>n\<close> with \<open>n / 10\<close> nearest to the
  number, the larger of two, printed with one decimal.  (Numbers from \<open>10^21\<close> on print
  differently; a rate is at most 100.)\<close>

definition toFixed1 :: "number \<Rightarrow> string" where
  "toFixed1 x =
     (case x of
        NaN \<Rightarrow> ''NaN''
      | Infinity \<Rightarrow> ''Infinity''
      | Finite p q \<Rightarrow>
          (let n = (20 * p + q) div (2 * q) in digits (n div 10) @ ''.'' @ digits (n mod 10)))"

text \<open>\<open>Math.round\<close>: the nearest integer, the larger of two.\<close>

definition math_round :: "number \<Rightarrow> number" where
  "math_round x = (case x of Finite p q \<Rightarrow> Finite ((2 * p + q) div (2 * q)) 1 | _ \<Rightarrow> x)"

text \<open>\<open>((a / b) * 100).toFixed(1)\<close>.\<close>

definition percent :: "nat \<Rightarrow> nat \<Rightarrow> string" where
  "percent a b = toFixed1 (times100 (divide a b))"

section \<open>The metrics extractor\<close>

text \<open>\<open>email.k1 || email.k2 || ...\<close>: the first of the properties that is a non-empty
  string, if there is one.\<close>

fun first_truthy :: "row \<Rightarrow> string list \<Rightarrow> string option" where
  "first_truthy email [] = None"
| "first_truthy email (k # ks) =
     (case get email k of
        None \<Rightarrow> first_truthy email ks
      | Some v \<Rightarrow> if v \<noteq> [] then Some v else first_truthy email ks)"

definition or_else :: "string option \<Rightarrow> string \<Rightarrow> string" where
  "or_else v d = (case v of None \<Rightarrow> d | Some s \<Rightarrow> s)"

definition digit_value :: "char \<Rightarrow> int" where
  "digit_value c =
     (if isDigit c then int (code_unit c) - 48
      else if 97 \<le> code_unit c \<and> code_unit c \<le> 102 then int (code_unit c) - 87
      else if 65 \<le> code_unit c \<and> code_unit c \<le> 70 then int (code_unit c) - 55
      else 36)"

text \<open>\<open>parseInt\<close> with no radix: leading white space, a sign, the prefix \<open>0x\<close> or
  \<open>0X\<close> for radix 16, then the longest run of digits; \<open>None\<close> is \<open>NaN\<close>.  The value
  is the integer the digits denote (JavaScript rounds it to a double from \<open>2^53\<close> on, which
  keeps its sign), and minus zero is zero.\<close>

definition parseInt :: "string \<Rightarrow> int option" where
  "parseInt s =
     (let s1 = dropWhile isWhiteSpace s;
          negative = (s1 \<noteq> [] \<and> hd s1 = CHR ''-'');
          s2 = (if s1 \<noteq> [] \<and> (hd s1 = CHR ''+'' \<or> hd s1 = CHR ''-'') then tl s1 else s1);
          hex = (take 2 s2 = ''0x'' \<or> take 2 s2 = ''0X'');
          radix = (if hex then 16 else 10);
          s3 = (if hex then drop 2 s2 else s2);
          z = takeWhile (\<lambda>c. digit_value c < radix) s3;
          n = foldl (\<lambda>acc c. acc * radix + digit_value c) 0 z
      in if z = [] then None else Some (if negative then - n else n))"

text \<open>\<open>n > 0\<close> on a number that may be \<open>NaN\<close>.\<close>

definition positive :: "int option \<Rightarrow> bool" where
  "positive n = (case n of None \<Rightarrow> False | Some k \<Rightarrow> k > 0)"

record metrics =
  opened :: bool
  clicked :: bool
  replied :: bool
  m_opens :: "int option"
  m_clicks :: "int option"
  m_replies :: "int option"

text \<open>The last operand of each \<open>||\<close> chain is the number 0, which \<open>parseInt\<close> reads as
  the string \<open>0\<close>.\<close>

definition calculateMetrics :: "row \<Rightarrow> metrics" where
  "calculateMetrics email =
     (let opens = parseInt (or_else (first_truthy email [''opens'', ''Opens'', ''opened'', ''Opened'']) ''0'');
          clicks = parseInt (or_else (first_truthy email [''clicks'', ''Clicks'', ''clicked'', ''Clicked'']) ''0'');
          replies = parseInt (or_else (first_truthy email [''replies'', ''Replies'', ''replied'', ''Replied'']) ''0'')
      in \<lparr>opened = positive opens, clicked = positive clicks, replied = positive replies,
          m_opens = opens, m_clicks = clicks, m_replies = replies\<rparr>)"

section \<open>The subject feature extractor\<close>

text \<open>\<open>hasNumbers\<close> and \<open>hasEmoji\<close> are absent from the result for an empty subject.
  The emoji block lies outside the code units of the model, where the pattern (with the
  \<open>u\<close> flag) matches nothing.\<close>

record subject_features =
  slength :: nat
  hasQuestion :: bool
  hasPersonalization :: bool
  hasNumbers :: "bool option"
  hasEmoji :: "bool option"

definition analyzeSubject :: "string \<Rightarrow> subject_features" where
  "analyzeSubject subject =
     (if subject = [] then
        \<lparr>slength = 0, hasQuestion = False, hasPersonalization = False,
         hasNumbers = None, hasEmoji = None\<rparr>
      else
        \<lparr>slength = length subject,
         hasQuestion = (CHR ''?'' \<in> set subject),
         hasPersonalization = test True (words [''{'', ''['', ''first'', ''name'']) subject,
         hasNumbers = Some (test False Digit subject),
         hasEmoji = Some False\<rparr>)"

section \<open>The aggregator\<close>

record email_detail =
  e_subject :: string
  e_body :: string
  e_metrics :: metrics
  sentDate :: string
  recipient :: string

text \<open>A rate of a group is not set before the pass is over; then it is the text that
  \<open>toFixed\<close> gives, or the number 0 for a group without rows.\<close>

datatype rate = Unset | Zero | Text string

record template_group =
  g_name :: string
  g_description :: string
  count :: nat
  opens :: nat
  clicks :: nat
  replies :: nat
  avgLength :: number
  totalLength :: nat
  g_emails :: "email_detail list"
  openRate :: rate
  clickRate :: rate
  replyRate :: rate

record bucket =
  b_opens :: nat
  total :: nat

record subject_analysis =
  withQuestion :: bucket
  withoutQuestion :: bucket
  shortSubject :: bucket
  longSubject :: bucket

record overall_metrics =
  totalEmails :: nat
  totalOpens :: nat
  totalClicks :: nat
  totalReplies :: nat
  o_openRate :: string
  o_clickRate :: string
  o_replyRate :: string

record report =
  templateGroups :: "template_group list"
  overall :: overall_metrics
  subjectAnalysis :: subject_analysis

text \<open>The object \<open>templateGroups\<close> of the pass: its properties in insertion order, which
  is the order of \<open>Object.values\<close>.\<close>

type_synonym groups = "(string \<times> template_group) list"

record pass =
  p_groups :: groups
  p_subjects :: subject_analysis

definition new_group :: "classification \<Rightarrow> template_group" where
  "new_group t = \<lparr>
     g_name = type_name t,
     g_description = (if cdescription t \<noteq> [] then cdescription t else ''Email template pattern''),
     count = 0, opens = 0, clicks = 0, replies = 0,
     avgLength = Finite 0 1, totalLength = 0, g_emails = [],
     openRate = Unset, clickRate = Unset, replyRate = Unset\<rparr>"

text \<open>\<open>if (!templateGroups[template.type]) templateGroups[template.type] = {...}\<close>.\<close>

definition ensure_group :: "classification \<Rightarrow> groups \<Rightarrow> groups" where
  "ensure_group t gs =
     (case map_of gs (type_name t) of
        None \<Rightarrow> gs @ [(type_name t, new_group t)]
      | Some g \<Rightarrow> gs)"

text \<open>The updates of \<open>group\<close> for one row.\<close>

definition count_email :: "string \<Rightarrow> metrics \<Rightarrow> email_detail \<Rightarrow> template_group \<Rightarrow> template_group" where
  "count_email bodyField m d g =
     (let g1 = g\<lparr>count := count g + 1\<rparr>;
          g2 = g1\<lparr>totalLength := totalLength g1 + length bodyField\<rparr>;
          g3 = g2\<lparr>avgLength := math_round (divide (totalLength g2) (count g2))\<rparr>;
          g4 = (if opened m then g3\<lparr>opens := opens g3 + 1\<rparr> else g3);
          g5 = (if clicked m then g4\<lparr>clicks := clicks g4 + 1\<rparr> else g4);
          g6 = (if replied m then g5\<lparr>replies := replies g5 + 1\<rparr> else g5)
      in g6\<lparr>g_emails := g_emails g6 @ [d]\<rparr>)"

definition tally :: "bool \<Rightarrow> bucket \<Rightarrow> bucket" where
  "tally was_opened b =
     (let b1 = b\<lparr>total := total b + 1\<rparr> in
      if was_opened then b1\<lparr>b_opens := b_opens b1 + 1\<rparr> else b1)"

definition count_subject :: "subject_features \<Rightarrow> metrics \<Rightarrow> subject_analysis \<Rightarrow> subject_analysis" where
  "count_subject subject m sa =
     (let sa1 = (if hasQuestion subject
                 then sa\<lparr>withQuestion := tally (opened m) (withQuestion sa)\<rparr>
                 else sa\<lparr>withoutQuestion := tally (opened m) (withoutQuestion sa)\<rparr>)
      in if slength subject < 40
         then sa1\<lparr>shortSubject := tally (opened m) (shortSubject sa1)\<rparr>
         else sa1\<lparr>longSubject := tally (opened m) (longSubject sa1)\<rparr>)"

definition body_aliases :: "string list" where
  "body_aliases = [''body'', ''Body'', ''Email Body'', ''content'', ''message'']"

definition subject_aliases :: "string list" where
  "subject_aliases = [''subject'', ''Subject'', ''Subject Line'', ''subject_line'']"

definition date_aliases :: "string list" where
  "date_aliases = [''date'', ''Date'', ''Sent Date'', ''sent_date'']"

definition recipient_aliases :: "string list" where
  "recipient_aliases = [''to'', ''To'', ''recipient'', ''Recipient'', ''email'']"

text \<open>The body of \<open>emails.forEach\<close>.\<close>

definition add_email :: "pass \<Rightarrow> row \<Rightarrow> pass" where
  "add_email st email =
     (let bodyField = or_else (first_truthy email body_aliases) [];
          subjectField = or_else (first_truthy email subject_aliases) [];
          t = analyzeTemplate bodyField;
          m = calculateMetrics email;
          subject = analyzeSubject subjectField;
          d = \<lparr>e_subject = subjectField, e_body = bodyField, e_metrics = m,
               sentDate = or_else (first_truthy email date_aliases) [],
               recipient = or_else (first_truthy email recipient_aliases) []\<rparr>
      in \<lparr>p_groups = AList.map_entry (type_name t) (count_email bodyField m d)
                        (ensure_group t (p_groups st)),
          p_subjects = count_subject subject m (p_subjects st)\<rparr>)"

definition empty_bucket :: bucket where
  "empty_bucket = \<lparr>b_opens = 0, total = 0\<rparr>"

definition pass_start :: pass where
  "pass_start = \<lparr>p_groups = [],
     p_subjects = \<lparr>withQuestion = empty_bucket, withoutQuestion = empty_bucket,
                   shortSubject = empty_bucket, longSubject = empty_bucket\<rparr>\<rparr>"

definition group_rate :: "nat \<Rightarrow> nat \<Rightarrow> rate" where
  "group_rate k n = (if n > 0 then Text (percent k n) else Zero)"

definition set_rates :: "template_group \<Rightarrow> template_group" where
  "set_rates g = g\<lparr>openRate := group_rate (opens g) (count g),
                    clickRate := group_rate (clicks g) (count g),
                    replyRate := group_rate (replies g) (count g)\<rparr>"

text \<open>\<open>.sort((a, b) => b.count - a.count)\<close>: a stable sort, the larger count first.\<close>

definition by_count :: "template_group list \<Rightarrow> template_group list" where
  "by_count gs = sort_key (\<lambda>g. - int (count g)) gs"

definition overall_of :: "row list \<Rightarrow> overall_metrics" where
  "overall_of emails =
     (let n = length emails;
          no = length (filter (\<lambda>e. opened (calculateMetrics e)) emails);
          nc = length (filter (\<lambda>e. clicked (calculateMetrics e)) emails);
          nr = length (filter (\<lambda>e. replied (calculateMetrics e)) emails)
      in \<lparr>totalEmails = n, totalOpens = no, totalClicks = nc, totalReplies = nr,
          o_openRate = percent no n, o_clickRate = percent nc n, o_replyRate = percent nr n\<rparr>)"

definition analyzeEmails :: "row list \<Rightarrow> report" where
  "analyzeEmails emails =
     (let st = foldl add_email pass_start emails in
      \<lparr>templateGroups = by_count (map (set_rates \<circ> snd) (p_groups st)),
       overall = overall_of emails,
       subjectAnalysis = p_subjects st\<rparr>)"

section \<open>Logical records and the retention rule\<close>

text \<open>The logical records of the data lines: the states in which the inner loop stops,
  one for each pass of the outer loop, before a row is made and filtered.\<close>

function logical_records :: "string list \<Rightarrow> scan list" where
  "logical_records [] = []"
| "logical_records (l # ls) =
     (let res = scan_record (l # ls) scan_start in fst res # logical_records (snd res))"
  by pat_completeness auto
termination
proof (relation "measure length")
  show "wf (measure length)" by simp
next
  fix l :: string and ls :: "string list" and res
  assume "res = scan_record (l # ls) scan_start"
  moreover have "length (snd (scan_record (l # ls) scan_start)) \<le> length ls"
    using scan_record_shorter [of ls] by (simp add: Let_def)
  ultimately show "(snd res, l # ls) \<in> measure length"
    by simp
qed

text \<open>The retention rule in the words of the specification: one of body, subject and
  recipient is non-empty after trimming, and a body that is non-empty after trimming has
  at least 10 characters.\<close>

definition retained :: "row \<Rightarrow> bool" where
  "retained r \<longleftrightarrow>
     (trim (field_of r ''body'') \<noteq> [] \<or> trim (field_of r ''subject'') \<noteq> [] \<or>
      trim (field_of r ''recipient'') \<noteq> []) \<and>
     (trim (field_of r ''body'') \<noteq> [] \<longrightarrow> 10 \<le> length (trim (field_of r ''body'')))"

text \<open>A field that has begun with the text \<open>k\<close> is either still open or among the
  finished values.\<close>

definition field_begun :: "string \<Rightarrow> scan \<Rightarrow> bool" where
  "field_begun k s \<longleftrightarrow>
     (\<exists>z. current s = k @ z) \<or> (\<exists>z. clean_field (k @ z) \<in> set (values s))"

text \<open>The object that the loop stores for a template: its name, its score on the text and
  its description.\<close>

definition result_of :: "string \<Rightarrow> template \<Rightarrow> classification" where
  "result_of txt t = \<lparr>type_name = name t, score = template_score txt t, cdescription = description t\<rparr>"

section \<open>The aggregator on lower-case aliases\<close>

text \<open>The variant of the aggregator that the specification describes for rows of the CSV
  reader: it reads the all-lower-case aliases only.\<close>

definition body_aliases_lower :: "string list" where
  "body_aliases_lower = [''body'', ''content'', ''message'']"

definition subject_aliases_lower :: "string list" where
  "subject_aliases_lower = [''subject'', ''subject_line'']"

definition date_aliases_lower :: "string list" where
  "date_aliases_lower = [''date'', ''sent_date'']"

definition recipient_aliases_lower :: "string list" where
  "recipient_aliases_lower = [''to'', ''recipient'', ''email'']"

definition calculateMetrics_lower :: "row \<Rightarrow> metrics" where
  "calculateMetrics_lower email =
     (let opens = parseInt (or_else (first_truthy email [''opens'', ''opened'']) ''0'');
          clicks = parseInt (or_else (first_truthy email [''clicks'', ''clicked'']) ''0'');
          replies = parseInt (or_else (first_truthy email [''replies'', ''replied'']) ''0'')
      in \<lparr>opened = positive opens, clicked = positive clicks, replied = positive replies,
          m_opens = opens, m_clicks = clicks, m_replies = replies\<rparr>)"

definition add_email_lower :: "pass \<Rightarrow> row \<Rightarrow> pass" where
  "add_email_lower st email =
     (let bodyField = or_else (first_truthy email body_aliases_lower) [];
          subjectField = or_else (first_truthy email subject_aliases_lower) [];
          t = analyzeTemplate bodyField;
          m = calculateMetrics_lower email;
          subject = analyzeSubject subjectField;
          d = \<lparr>e_subject = subjectField, e_body = bodyField, e_metrics = m,
               sentDate = or_else (first_truthy email date_aliases_lower) [],
               recipient = or_else (first_truthy email recipient_aliases_lower) []\<rparr>
      in \<lparr>p_groups = AList.map_entry (type_name t) (count_email bodyField m d)
                        (ensure_group t (p_groups st)),
          p_subjects = count_subject subject m (p_subjects st)\<rparr>)"

definition overall_of_lower :: "row list \<Rightarrow> overall_metrics" where
  "overall_of_lower rows =
     (let n = length rows;
          no = length (filter (\<lambda>e. opened (calculateMetrics_lower e)) rows);
          nc = length (filter (\<lambda>e. clicked (calculateMetrics_lower e)) rows);
          nr = length (filter (\<lambda>e. replied (calculateMetrics_lower e)) rows)
      in \<lparr>totalEmails = n, totalOpens = no, totalClicks = nc, totalReplies = nr,
          o_openRate = percent no n, o_clickRate = percent nc n, o_replyRate = percent nr n\<rparr>)"

definition analyzeEmails_lower :: "row list \<Rightarrow> report" where
  "analyzeEmails_lower rows =
     (let st = foldl add_email_lower pass_start rows in
      \<lparr>templateGroups = by_count (map (set_rates \<circ> snd) (p_groups st)),
       overall = overall_of_lower rows,
       subjectAnalysis = p_subjects st\<rparr>)"

text \<open>The aliases of the source that contain a capital letter.\<close>

definition mixed_case_aliases :: "string list" where
  "mixed_case_aliases =
     [''Body'', ''Email Body'', ''Subject'', ''Subject Line'', ''Opens'', ''Opened'', ''Clicks'',
      ''Clicked'', ''Replies'', ''Replied'', ''Date'', ''Sent Date'', ''To'', ''Recipient'']"

text \<open>No property name of the row contains a capital letter.\<close>

definition lower_keyed :: "row \<Rightarrow> bool" where
  "lower_keyed r \<longleftrightarrow> (\<forall>k\<in>fst ` set r. \<forall>c\<in>set k. \<not> isUpper c)"

section \<open>Comparing reports\<close>

text \<open>\<open>tallies g\<close> is the group \<open>g\<close> without its list of per-email details.\<close>

definition tallies :: "template_group \<Rightarrow> template_group" where
  "tallies g = g\<lparr>g_emails := []\<rparr>"

definition same_tallies :: "groups \<Rightarrow> groups \<Rightarrow> bool" where
  "same_tallies gs gs' \<longleftrightarrow> map (\<lambda>p. (fst p, tallies (snd p))) gs = map (\<lambda>p. (fst p, tallies (snd p))) gs'"

text \<open>Two rows that read the same body, subject, date and recipient and set the same
  flags move the pass in the same way, up to the details.\<close>

definition same_reading :: "row \<Rightarrow> row \<Rightarrow> bool" where
  "same_reading e e' \<longleftrightarrow>
     first_truthy e body_aliases = first_truthy e' body_aliases \<and>
     first_truthy e subject_aliases = first_truthy e' subject_aliases \<and>
     opened (calculateMetrics e) = opened (calculateMetrics e') \<and>
     clicked (calculateMetrics e) = clicked (calculateMetrics e') \<and>
     replied (calculateMetrics e) = replied (calculateMetrics e')"

section \<open>Example inputs\<close>

text \<open>The end-to-end scenario: a file with one data row, and the body of that row.  Then
  a file whose single field has doubled quotes inside.\<close>

definition scenario_csv :: string where
  \<open>scenario_csv = ''subject,body,opens,clicks,replies\<newline>"Test","Noticed your recent growth. Wondering if you face challenges? We were able to help similar clients. Would you be open to a call?",1,0,0''\<close>

definition scenario_body :: string where
  "scenario_body = ''Noticed your recent growth. Wondering if you face challenges? We were able to help similar clients. Would you be open to a call?''"

definition quoted_csv :: string where
  \<open>quoted_csv = ''body\<newline>"Hi, I said ""hello"""''\<close>

section \<open>Character classes on the bits of a code unit\<close>

text \<open>The classes and case mappings above are stated on the number of a code unit.  The
  same functions on its eight bits (least significant first) evaluate without
  arithmetic; the lemmas are used as code equations.\<close>

lemma isLower_Char [code]:
  "isLower (Char b0 b1 b2 b3 b4 b5 b6 b7) \<longleftrightarrow> b5 \<and> b6 \<and> low5_letter b0 b1 b2 b3 b4 b7"
  by (cases b0; cases b1; cases b2; cases b3; cases b4; cases b5; cases b6; cases b7;
      simp add: isLower_def code_unit_def low5_letter_def)

lemma isUpper_Char [code]:
  "isUpper (Char b0 b1 b2 b3 b4 b5 b6 b7) \<longleftrightarrow> \<not> b5 \<and> b6 \<and> low5_letter b0 b1 b2 b3 b4 b7"
  by (cases b0; cases b1; cases b2; cases b3; cases b4; cases b5; cases b6; cases b7;
      simp add: isUpper_def code_unit_def low5_letter_def)

lemma canonicalize_Char [code]:
  "canonicalize ic (Char b0 b1 b2 b3 b4 b5 b6 b7) =
     (if ic \<and> b5 \<and> b6 \<and> low5_letter b0 b1 b2 b3 b4 b7 then Char b0 b1 b2 b3 b4 False b6 b7
      else Char b0 b1 b2 b3 b4 b5 b6 b7)"
  by (cases b0; cases b1; cases b2; cases b3; cases b4; cases b5; cases b6; cases b7;
      simp add: canonicalize_def isLower_def code_unit_def low5_letter_def char_of_eq_iff)

lemma lowerChar_Char [code]:
  "lowerChar (Char b0 b1 b2 b3 b4 b5 b6 b7) =
     (if \<not> b5 \<and> b6 \<and> low5_letter b0 b1 b2 b3 b4 b7 then Char b0 b1 b2 b3 b4 True b6 b7
      else Char b0 b1 b2 b3 b4 b5 b6 b7)"
  by (cases b0; cases b1; cases b2; cases b3; cases b4; cases b5; cases b6; cases b7;
      simp add: lowerChar_def isUpper_def code_unit_def low5_letter_def char_of_eq_iff)

lemma isDigit_Char [code]:
  "isDigit (Char b0 b1 b2 b3 b4 b5 b6 b7) \<longleftrightarrow>
     \<not> b7 \<and> \<not> b6 \<and> b5 \<and> b4 \<and> \<not> (b3 \<and> (b2 \<or> b1))"
  by (cases b0; cases b1; cases b2; cases b3; cases b4; cases b5; cases b6; cases b7;
      simp add: isDigit_def code_unit_def)

lemma isWordChar_Char [code]:
  "isWordChar (Char b0 b1 b2 b3 b4 b5 b6 b7) \<longleftrightarrow>
     (\<not> b7 \<and> b6 \<and> low5_letter b0 b1 b2 b3 b4 False) \<or>
     (\<not> b7 \<and> \<not> b6 \<and> b5 \<and> b4 \<and> \<not> (b3 \<and> (b2 \<or> b1))) \<or>
     (b0 \<and> b1 \<and> b2 \<and> b3 \<and> b4 \<and> \<not> b5 \<and> b6 \<and> \<not> b7)"
  by (cases b0; cases b1; cases b2; cases b3; cases b4; cases b5; cases b6; cases b7;
      simp add: isWordChar_def isDigit_def code_unit_def low5_letter_def)

section \<open>Properties of the pipeline\<close>

subsection \<open>Sums over the groups\<close>

lemma sum_insort_key:
  "sum_list (map h (insort_key k x xs)) = h x + sum_list (map h xs)"
  for h :: "'a \<Rightarrow> nat"
  by (induction xs) auto

lemma sum_sort_key:
  "sum_list (map h (sort_key k xs)) = sum_list (map h xs)"
  for h :: "'a \<Rightarrow> nat"
  by (induction xs) (auto simp: sum_insort_key)

lemma sum_by_count: "sum_list (map h (by_count gs)) = sum_list (map h gs)"
  for h :: "template_group \<Rightarrow> nat"
  by (simp add: by_count_def sum_sort_key)

lemma sum_map_entry:
  fixes h :: "template_group \<Rightarrow> nat"
  assumes "map_of gs k = Some g" and "\<And>g. h (f g) = h g + d"
  shows "sum_list (map (h \<circ> snd) (AList.map_entry k f gs)) = sum_list (map (h \<circ> snd) gs) + d"
  using assms(1)
proof (induction gs)
  case Nil
  then show ?case by simp
next
  case (Cons p gs)
  then show ?case by (cases "fst p = k") (auto simp: assms(2))
qed

lemma map_of_ensure_group:
  "map_of (ensure_group t gs) (type_name t) =
     Some (case map_of gs (type_name t) of None \<Rightarrow> new_group t | Some g \<Rightarrow> g)"
  by (auto simp: ensure_group_def map_add_def split: option.splits)

lemma map_of_ensure_group_other:
  "k \<noteq> type_name t \<Longrightarrow> map_of (ensure_group t gs) k = map_of gs k"
  by (auto simp: ensure_group_def map_add_def split: option.splits)

lemma sum_ensure_group:
  fixes h :: "template_group \<Rightarrow> nat"
  assumes "h (new_group t) = 0"
  shows "sum_list (map (h \<circ> snd) (ensure_group t gs)) = sum_list (map (h \<circ> snd) gs)"
  using assms by (simp add: ensure_group_def split: option.splits)

lemma count_email_fields:
  "count (count_email b m d g) = count g + 1"
  "opens (count_email b m d g) = opens g + (if opened m then 1 else 0)"
  "clicks (count_email b m d g) = clicks g + (if clicked m then 1 else 0)"
  "replies (count_email b m d g) = replies g + (if replied m then 1 else 0)"
  by (simp_all add: count_email_def Let_def)

lemma new_group_fields:
  "count (new_group t) = 0" "opens (new_group t) = 0" "clicks (new_group t) = 0"
  "replies (new_group t) = 0"
  by (simp_all add: new_group_def)

lemma add_email_sums:
  "sum_list (map (count \<circ> snd) (p_groups (add_email st e))) =
     sum_list (map (count \<circ> snd) (p_groups st)) + 1"
  "sum_list (map (opens \<circ> snd) (p_groups (add_email st e))) =
     sum_list (map (opens \<circ> snd) (p_groups st)) + (if opened (calculateMetrics e) then 1 else 0)"
  "sum_list (map (clicks \<circ> snd) (p_groups (add_email st e))) =
     sum_list (map (clicks \<circ> snd) (p_groups st)) + (if clicked (calculateMetrics e) then 1 else 0)"
  "sum_list (map (replies \<circ> snd) (p_groups (add_email st e))) =
     sum_list (map (replies \<circ> snd) (p_groups st)) + (if replied (calculateMetrics e) then 1 else 0)"
  by (simp_all add: add_email_def Let_def
        sum_map_entry [OF map_of_ensure_group] count_email_fields sum_ensure_group new_group_fields)

lemma foldl_add_email_sums:
  "sum_list (map (count \<circ> snd) (p_groups (foldl add_email st es))) =
     sum_list (map (count \<circ> snd) (p_groups st)) + length es"
  "sum_list (map (opens \<circ> snd) (p_groups (foldl add_email st es))) =
     sum_list (map (opens \<circ> snd) (p_groups st)) + length (filter (\<lambda>e. opened (calculateMetrics e)) es)"
  "sum_list (map (clicks \<circ> snd) (p_groups (foldl add_email st es))) =
     sum_list (map (clicks \<circ> snd) (p_groups st)) + length (filter (\<lambda>e. clicked (calculateMetrics e)) es)"
  "sum_list (map (replies \<circ> snd) (p_groups (foldl add_email st es))) =
     sum_list (map (replies \<circ> snd) (p_groups st)) + length (filter (\<lambda>e. replied (calculateMetrics e)) es)"
  by (induction es arbitrary: st; simp add: add_email_sums)+

lemma set_rates_fields:
  "count (set_rates g) = count g" "opens (set_rates g) = opens g"
  "clicks (set_rates g) = clicks g" "replies (set_rates g) = replies g"
  by (simp_all add: set_rates_def)

lemma report_sums:
  "sum_list (map count (templateGroups (analyzeEmails es))) = length es"
  "sum_list (map opens (templateGroups (analyzeEmails es))) =
     length (filter (\<lambda>e. opened (calculateMetrics e)) es)"
  "sum_list (map clicks (templateGroups (analyzeEmails es))) =
     length (filter (\<lambda>e. clicked (calculateMetrics e)) es)"
  "sum_list (map replies (templateGroups (analyzeEmails es))) =
     length (filter (\<lambda>e. replied (calculateMetrics e)) es)"
  using foldl_add_email_sums [of pass_start es]
  by (simp_all add: analyzeEmails_def Let_def sum_by_count comp_def set_rates_fields pass_start_def)

lemma overall_totals:
  "totalEmails (overall (analyzeEmails es)) = length es"
  "totalOpens (overall (analyzeEmails es)) = length (filter (\<lambda>e. opened (calculateMetrics e)) es)"
  "totalClicks (overall (analyzeEmails es)) = length (filter (\<lambda>e. clicked (calculateMetrics e)) es)"
  "totalReplies (overall (analyzeEmails es)) = length (filter (\<lambda>e. replied (calculateMetrics e)) es)"
  by (simp_all add: analyzeEmails_def overall_of_def Let_def)

text \<open>What one row does to the groups, key by key.\<close>

lemma add_email_group:
  "map_of (p_groups (add_email st e)) k =
     (let b = or_else (first_truthy e body_aliases) [];
          t = analyzeTemplate b
      in if k = type_name t then
           Some (count_email b (calculateMetrics e)
                   \<lparr>e_subject = or_else (first_truthy e subject_aliases) [], e_body = b,
                    e_metrics = calculateMetrics e,
                    sentDate = or_else (first_truthy e date_aliases) [],
                    recipient = or_else (first_truthy e recipient_aliases) []\<rparr>
                   (case map_of (p_groups st) k of None \<Rightarrow> new_group t | Some g \<Rightarrow> g))
         else map_of (p_groups st) k)"
  by (simp add: add_email_def Let_def AList.map_of_map_entry map_of_ensure_group
        map_of_ensure_group_other)

subsection \<open>The subject buckets\<close>

lemma add_email_subjects:
  "p_subjects (add_email st e) =
     count_subject (analyzeSubject (or_else (first_truthy e subject_aliases) []))
       (calculateMetrics e) (p_subjects st)"
  by (simp add: add_email_def Let_def)

lemma tally_total: "total (tally b x) = total x + 1"
  by (simp add: tally_def Let_def)

lemma count_subject_question:
  "total (withQuestion (count_subject s m sa)) + total (withoutQuestion (count_subject s m sa)) =
     total (withQuestion sa) + total (withoutQuestion sa) + 1"
  by (simp add: count_subject_def Let_def tally_total)

lemma count_subject_length:
  "total (shortSubject (count_subject s m sa)) + total (longSubject (count_subject s m sa)) =
     total (shortSubject sa) + total (longSubject sa) + 1"
  by (simp add: count_subject_def Let_def tally_total)

lemma foldl_add_email_buckets:
  "total (withQuestion (p_subjects (foldl add_email st es))) +
   total (withoutQuestion (p_subjects (foldl add_email st es))) =
     total (withQuestion (p_subjects st)) + total (withoutQuestion (p_subjects st)) + length es"
  "total (shortSubject (p_subjects (foldl add_email st es))) +
   total (longSubject (p_subjects (foldl add_email st es))) =
     total (shortSubject (p_subjects st)) + total (longSubject (p_subjects st)) + length es"
  by (induction es arbitrary: st;
      simp add: add_email_subjects count_subject_question count_subject_length)+

lemma report_buckets:
  "total (withQuestion (subjectAnalysis (analyzeEmails es))) +
   total (withoutQuestion (subjectAnalysis (analyzeEmails es))) = length es"
  "total (shortSubject (subjectAnalysis (analyzeEmails es))) +
   total (longSubject (subjectAnalysis (analyzeEmails es))) = length es"
  using foldl_add_email_buckets [of pass_start es]
  by (simp_all add: analyzeEmails_def Let_def pass_start_def empty_bucket_def)

subsection \<open>Reports without the per-email details\<close>

lemma tallies_count_email_group:
  "tallies (count_email b m d g) = tallies (count_email b m d (tallies g))"
  by (simp add: count_email_def tallies_def Let_def)

lemma tallies_count_email_flags:
  assumes "opened m = opened m'" "clicked m = clicked m'" "replied m = replied m'"
  shows "tallies (count_email b m d g) = tallies (count_email b m' d' g)"
  using assms by (simp add: count_email_def tallies_def Let_def)

lemma tallies_count_email:
  assumes "tallies g = tallies g'" "opened m = opened m'" "clicked m = clicked m'"
    "replied m = replied m'"
  shows "tallies (count_email b m d g) = tallies (count_email b m' d' g')"
proof -
  have "tallies (count_email b m d g) = tallies (count_email b m d (tallies g'))"
    using tallies_count_email_group [of b m d g] assms(1) by simp
  also have "\<dots> = tallies (count_email b m d g')"
    using tallies_count_email_group [of b m d g'] by simp
  also have "\<dots> = tallies (count_email b m' d' g')"
    by (rule tallies_count_email_flags [OF assms(2-4)])
  finally show ?thesis .
qed

lemma same_tallies_keys: "same_tallies gs gs' \<Longrightarrow> map fst gs = map fst gs'"
proof -
  assume "same_tallies gs gs'"
  then have "map fst (map (\<lambda>p. (fst p, tallies (snd p))) gs) =
             map fst (map (\<lambda>p. (fst p, tallies (snd p))) gs')"
    by (simp only: same_tallies_def)
  then show ?thesis by (simp add: comp_def)
qed

lemma same_tallies_map_of_None:
  assumes "same_tallies gs gs'"
  shows "map_of gs k = None \<longleftrightarrow> map_of gs' k = None"
  using same_tallies_keys [OF assms] by (metis map_of_eq_None_iff set_map)

lemma same_tallies_ensure:
  assumes "same_tallies gs gs'"
  shows "same_tallies (ensure_group t gs) (ensure_group t gs')"
proof (cases "map_of gs (type_name t)")
  case None
  then have "map_of gs' (type_name t) = None"
    using same_tallies_map_of_None [OF assms] by simp
  with None assms show ?thesis by (simp add: ensure_group_def same_tallies_def)
next
  case (Some g)
  then obtain g' where "map_of gs' (type_name t) = Some g'"
    using same_tallies_map_of_None [OF assms, of "type_name t"] by auto
  with Some assms show ?thesis by (simp add: ensure_group_def)
qed

lemma same_tallies_map_entry:
  assumes "same_tallies gs gs'"
    and "\<And>g g'. tallies g = tallies g' \<Longrightarrow> tallies (f g) = tallies (f' g')"
  shows "same_tallies (AList.map_entry k f gs) (AList.map_entry k f' gs')"
  using assms(1)
proof (induction gs arbitrary: gs')
  case Nil
  then show ?case by (simp add: same_tallies_def)
next
  case (Cons p gs)
  then obtain p' rest where gs': "gs' = p' # rest"
    by (cases gs') (auto simp: same_tallies_def)
  with Cons.prems have hd: "fst p = fst p'" "tallies (snd p) = tallies (snd p')"
    and tl: "same_tallies gs rest"
    by (simp_all add: same_tallies_def)
  show ?case
    using hd tl Cons.IH [OF tl] assms(2) [OF hd(2)]
    by (simp add: gs' same_tallies_def)
qed

lemma count_subject_flags:
  "opened m = opened m' \<Longrightarrow> count_subject s m sa = count_subject s m' sa"
  unfolding count_subject_def Let_def by simp

lemma add_email_same:
  assumes "same_tallies (p_groups st) (p_groups st')" "p_subjects st = p_subjects st'"
    "same_reading e e'"
  shows "same_tallies (p_groups (add_email st e)) (p_groups (add_email st' e')) \<and>
         p_subjects (add_email st e) = p_subjects (add_email st' e')"
proof -
  from assms(3) have body: "first_truthy e body_aliases = first_truthy e' body_aliases"
    and subj: "first_truthy e subject_aliases = first_truthy e' subject_aliases"
    and flags: "opened (calculateMetrics e) = opened (calculateMetrics e')"
      "clicked (calculateMetrics e) = clicked (calculateMetrics e')"
      "replied (calculateMetrics e) = replied (calculateMetrics e')"
    by (simp_all add: same_reading_def)
  have "same_tallies
          (AList.map_entry k (count_email b (calculateMetrics e) d) (ensure_group t (p_groups st)))
          (AList.map_entry k (count_email b (calculateMetrics e') d') (ensure_group t (p_groups st')))"
    for k b d d' t
    by (rule same_tallies_map_entry [OF same_tallies_ensure [OF assms(1)]])
       (rule tallies_count_email [OF _ flags])
  moreover have "count_subject s (calculateMetrics e) (p_subjects st) =
                 count_subject s (calculateMetrics e') (p_subjects st')" for s
    using count_subject_flags [OF flags(1)] assms(2) by simp
  ultimately show ?thesis
    by (simp add: add_email_def Let_def body subj)
qed

lemma same_reading_refl: "same_reading e e"
  by (simp add: same_reading_def)

lemma foldl_add_email_same:
  assumes "same_tallies (p_groups st) (p_groups st')" "p_subjects st = p_subjects st'"
    "list_all2 same_reading es es'"
  shows "same_tallies (p_groups (foldl add_email st es)) (p_groups (foldl add_email st' es')) \<and>
         p_subjects (foldl add_email st es) = p_subjects (foldl add_email st' es')"
  using assms(3,1,2)
proof (induction es es' arbitrary: st st' rule: list_all2_induct)
  case Nil
  then show ?case by simp
next
  case (Cons e es e' es')
  from add_email_same [OF Cons.prems(1,2) Cons.hyps(1)] Cons.IH show ?case by simp
qed

lemma map_insort_key:
  assumes "\<And>x. k (h x) = k x"
  shows "map h (insort_key k x xs) = insort_key k (h x) (map h xs)"
  by (induction xs) (simp_all add: assms)

lemma map_sort_key:
  assumes "\<And>x. k (h x) = k x"
  shows "map h (sort_key k xs) = sort_key k (map h xs)"
  by (induction xs) (simp_all add: map_insort_key assms)

lemma tallies_set_rates: "tallies (set_rates g) = set_rates (tallies g)"
  by (simp add: tallies_def set_rates_def)

lemma same_tallies_report:
  assumes "same_tallies gs gs'"
  shows "map tallies (by_count (map (set_rates \<circ> snd) gs)) =
         map tallies (by_count (map (set_rates \<circ> snd) gs'))"
proof -
  have "map (tallies \<circ> snd) gs = map (tallies \<circ> snd) gs'"
  proof -
    from assms have "map snd (map (\<lambda>p. (fst p, tallies (snd p))) gs) =
                     map snd (map (\<lambda>p. (fst p, tallies (snd p))) gs')"
      by (simp only: same_tallies_def)
    then show ?thesis by (simp add: comp_def)
  qed
  then have "map set_rates (map (tallies \<circ> snd) gs) = map set_rates (map (tallies \<circ> snd) gs')"
    by simp
  then have "map tallies (map (set_rates \<circ> snd) gs) = map tallies (map (set_rates \<circ> snd) gs')"
    by (simp add: comp_def tallies_set_rates)
  moreover have "\<And>xs. map tallies (by_count xs) = by_count (map tallies xs)"
    unfolding by_count_def by (rule map_sort_key) (simp add: tallies_def)
  ultimately show ?thesis by simp
qed

lemma overall_same:
  assumes "list_all2 same_reading es es'"
  shows "overall_of es = overall_of es'"
proof -
  have "length es = length es' \<and>
        length (filter (\<lambda>e. opened (calculateMetrics e)) es) =
          length (filter (\<lambda>e. opened (calculateMetrics e)) es') \<and>
        length (filter (\<lambda>e. clicked (calculateMetrics e)) es) =
          length (filter (\<lambda>e. clicked (calculateMetrics e)) es') \<and>
        length (filter (\<lambda>e. replied (calculateMetrics e)) es) =
          length (filter (\<lambda>e. replied (calculateMetrics e)) es')"
    using assms by (induction rule: list_all2_induct) (auto simp: same_reading_def)
  then show ?thesis by (simp add: overall_of_def)
qed

lemma report_same:
  assumes "list_all2 same_reading es es'"
  shows "map tallies (templateGroups (analyzeEmails es)) = map tallies (templateGroups (analyzeEmails es')) \<and>
         overall (analyzeEmails es) = overall (analyzeEmails es') \<and>
         subjectAnalysis (analyzeEmails es) = subjectAnalysis (analyzeEmails es')"
proof -
  have start: "same_tallies (p_groups pass_start) (p_groups pass_start)"
    by (simp add: same_tallies_def)
  have pass: "same_tallies (p_groups (foldl add_email pass_start es))
                (p_groups (foldl add_email pass_start es'))"
    and subj: "p_subjects (foldl add_email pass_start es) = p_subjects (foldl add_email pass_start es')"
    using foldl_add_email_same [OF start refl assms] by simp_all
  show ?thesis
    using same_tallies_report [OF pass] subj overall_same [OF assms]
    by (simp add: analyzeEmails_def Let_def)
qed

subsection \<open>Rows that differ in one column\<close>

lemma first_truthy_cong:
  "\<forall>k\<in>set ks. get e k = get e' k \<Longrightarrow> first_truthy e ks = first_truthy e' ks"
  by (induction ks) (simp_all split: option.splits)

lemma parseInt_empty: "parseInt [] = None"
  by (simp add: parseInt_def)

lemma positive_parseInt_nonempty: "positive (parseInt v) \<Longrightarrow> v \<noteq> []"
  by (auto simp: parseInt_empty positive_def)

lemma same_reading_opens:
  assumes "get e ''opens'' = Some v" "get e' ''opens'' = Some v'"
    and "\<And>k. k \<noteq> ''opens'' \<Longrightarrow> get e' k = get e k"
    and "positive (parseInt v)" "positive (parseInt v')"
  shows "same_reading e e'"
proof -
  have v: "v \<noteq> []" "v' \<noteq> []"
    using assms(4,5) by (auto dest: positive_parseInt_nonempty)
  have other: "first_truthy e ks = first_truthy e' ks" if "''opens'' \<notin> set ks" for ks
    using that assms(3) by (intro first_truthy_cong) metis
  have "opened (calculateMetrics e)" "opened (calculateMetrics e')"
    using assms(1,2,4,5) v by (simp_all add: calculateMetrics_def Let_def or_else_def)
  moreover have "clicked (calculateMetrics e) = clicked (calculateMetrics e')"
    "replied (calculateMetrics e) = replied (calculateMetrics e')"
    by (simp_all add: calculateMetrics_def Let_def other del: first_truthy.simps)
  ultimately show ?thesis
    by (simp add: same_reading_def other body_aliases_def subject_aliases_def
          del: first_truthy.simps)
qed

lemma list_all2_same_reading_refl: "list_all2 same_reading xs xs"
  by (simp add: list_all2_refl same_reading_refl)

lemma parseInt_12: "parseInt ''12'' = Some 12"
  by code_simp

lemma parseInt_1: "parseInt ''1'' = Some 1"
  by code_simp

subsection \<open>The order of the aliases\<close>

lemma first_truthy_Some_iff:
  "first_truthy e ks = Some v \<longleftrightarrow>
     (\<exists>i<length ks. get e (ks ! i) = Some v \<and> v \<noteq> [] \<and>
        (\<forall>j<i. get e (ks ! j) = None \<or> get e (ks ! j) = Some []))"
proof (induction ks)
  case Nil
  then show ?case by simp
next
  case (Cons k ks)
  show ?case
  proof (cases "\<exists>w. get e k = Some w \<and> w \<noteq> []")
    case True
    then obtain w where w: "get e k = Some w" "w \<noteq> []" by blast
    have "(\<exists>i<length (k # ks). get e ((k # ks) ! i) = Some v \<and> v \<noteq> [] \<and>
            (\<forall>j<i. get e ((k # ks) ! j) = None \<or> get e ((k # ks) ! j) = Some [])) \<longleftrightarrow> w = v"
    proof
      assume "\<exists>i<length (k # ks). get e ((k # ks) ! i) = Some v \<and> v \<noteq> [] \<and>
            (\<forall>j<i. get e ((k # ks) ! j) = None \<or> get e ((k # ks) ! j) = Some [])"
      then obtain i where i: "get e ((k # ks) ! i) = Some v"
        "\<forall>j<i. get e ((k # ks) ! j) = None \<or> get e ((k # ks) ! j) = Some []" by blast
      have "i = 0"
      proof (rule ccontr)
        assume "i \<noteq> 0"
        then have "get e ((k # ks) ! 0) = None \<or> get e ((k # ks) ! 0) = Some []"
          using i(2) by blast
        with w show False by simp
      qed
      with i(1) w show "w = v" by simp
    next
      assume "w = v"
      with w have "get e ((k # ks) ! 0) = Some v \<and> v \<noteq> []" by simp
      then show "\<exists>i<length (k # ks). get e ((k # ks) ! i) = Some v \<and> v \<noteq> [] \<and>
            (\<forall>j<i. get e ((k # ks) ! j) = None \<or> get e ((k # ks) ! j) = Some [])"
        by (intro exI [of _ 0]) simp
    qed
    with w show ?thesis by simp
  next
    case False
    then have skip: "get e k = None \<or> get e k = Some []"
      by (cases "get e k") auto
    then have "first_truthy e (k # ks) = first_truthy e ks"
      by auto
    moreover have "(\<exists>i<length (k # ks). get e ((k # ks) ! i) = Some v \<and> v \<noteq> [] \<and>
            (\<forall>j<i. get e ((k # ks) ! j) = None \<or> get e ((k # ks) ! j) = Some [])) \<longleftrightarrow>
          (\<exists>i<length ks. get e (ks ! i) = Some v \<and> v \<noteq> [] \<and>
            (\<forall>j<i. get e (ks ! j) = None \<or> get e (ks ! j) = Some []))"
      (is "?L \<longleftrightarrow> ?R")
    proof
      assume ?L
      then obtain i where i: "i < length (k # ks)" "get e ((k # ks) ! i) = Some v" "v \<noteq> []"
        "\<forall>j<i. get e ((k # ks) ! j) = None \<or> get e ((k # ks) ! j) = Some []" by blast
      from skip i(2,3) have "i \<noteq> 0" by (cases i) auto
      then obtain i' where i': "i = Suc i'" by (cases i) auto
      have "\<forall>j<i'. get e (ks ! j) = None \<or> get e (ks ! j) = Some []"
      proof (intro allI impI)
        fix j assume "j < i'"
        then have "Suc j < i" using i' by simp
        with i(4) have "get e ((k # ks) ! Suc j) = None \<or> get e ((k # ks) ! Suc j) = Some []"
          by blast
        then show "get e (ks ! j) = None \<or> get e (ks ! j) = Some []" by simp
      qed
      with i i' show ?R by (intro exI [of _ i']) simp
    next
      assume ?R
      then obtain i where i: "i < length ks" "get e (ks ! i) = Some v" "v \<noteq> []"
        "\<forall>j<i. get e (ks ! j) = None \<or> get e (ks ! j) = Some []" by blast
      have "\<forall>j<Suc i. get e ((k # ks) ! j) = None \<or> get e ((k # ks) ! j) = Some []"
      proof (intro allI impI)
        fix j assume j: "j < Suc i"
        show "get e ((k # ks) ! j) = None \<or> get e ((k # ks) ! j) = Some []"
        proof (cases j)
          case 0
          with skip show ?thesis by simp
        next
          case (Suc j')
          with j i(4) show ?thesis by simp
        qed
      qed
      with i show ?L by (intro exI [of _ "Suc i"]) simp
    qed
    ultimately show ?thesis using Cons.IH by simp
  qed
qed

lemma parseInt_abc: "parseInt ''abc'' = None"
  by code_simp

lemma parseInt_0: "parseInt ''0'' = Some 0"
  by code_simp

lemma parseInt_5: "parseInt ''5'' = Some 5"
  by code_simp

subsection \<open>The retention rule\<close>

lemma trim_Nil: "trim [] = []"
  by (simp add: trim_def)

lemma has_field_trim: "has_field r k \<longleftrightarrow> trim (field_of r k) \<noteq> []"
  by (auto simp: has_field_def field_of_def trim_Nil split: option.splits)

lemma meaningful_retained: "meaningful r = retained r"
  by (auto simp: meaningful_def retained_def has_field_trim Let_def)

lemma parse_rows_filter:
  "parse_rows hs ls =
     filter retained (map (\<lambda>s. make_row hs (finish_record s)) (logical_records ls))"
  by (induction hs ls rule: parse_rows.induct) (simp_all add: Let_def meaningful_retained)

lemma parse_kept: \<open>parseCSV ''subject,body,recipient\<newline>Hi,,'' =
    [[(''subject'', ''Hi''), (''body'', ''''), (''recipient'', '''')]]\<close>
  by code_simp

lemma parse_dropped_empty: \<open>parseCSV ''body,subject,recipient\<newline>,,'' = []\<close>
  by code_simp

lemma parse_dropped_short: \<open>parseCSV ''body\<newline>short'' = []\<close>
  by code_simp

subsection \<open>Fields that span lines\<close>

lemma quote_match_len:
  "match_len False (Alt (Cat Bol (Str [dquote])) (Cat (Str [dquote]) Eol)) prev (c # cs) =
     (if c = dquote \<and> (prev = None \<or> cs = []) then Some 1 else None)"
  by (auto simp: match_len_def canonicalize_def assertion_def)

lemma quote_match_len_Nil:
  "match_len False (Alt (Cat Bol (Str [dquote])) (Cat (Str [dquote]) Eol)) prev [] = None"
  by (simp add: match_len_def assertion_def)

lemma replace_quotes_keeps:
  "x \<noteq> dquote \<Longrightarrow> x \<in> set s \<Longrightarrow>
   x \<in> set (replace_from False (Alt (Cat Bol (Str [dquote])) (Cat (Str [dquote]) Eol)) [] 0 prev s)"
proof (induction s arbitrary: prev)
  case Nil
  then show ?case by simp
next
  case (Cons c cs)
  then show ?case
    by (auto simp: quote_match_len simp del: ends.simps)
qed

lemma strip_quotes_keeps: "x \<noteq> dquote \<Longrightarrow> x \<in> set s \<Longrightarrow> x \<in> set (strip_quotes s)"
  by (simp add: strip_quotes_def replaceAll_def replace_quotes_keeps)

lemma trim_keeps_inner:
  assumes "\<exists>x\<in>set u. \<not> isWhiteSpace x" "\<exists>y\<in>set v. \<not> isWhiteSpace y"
  shows "c \<in> set (trim (u @ c # v))"
proof -
  from assms obtain x y where x: "x \<in> set u" "\<not> isWhiteSpace x"
    and y: "y \<in> set (rev v)" "\<not> isWhiteSpace y" by auto
  have "dropWhile isWhiteSpace (u @ c # v) = dropWhile isWhiteSpace u @ c # v"
    using x by (rule dropWhile_append1)
  moreover have "dropWhile isWhiteSpace (rev v @ c # rev (dropWhile isWhiteSpace u)) =
                 dropWhile isWhiteSpace (rev v) @ c # rev (dropWhile isWhiteSpace u)"
    using y by (rule dropWhile_append1)
  ultimately show ?thesis by (simp add: trim_def)
qed

lemma clean_field_keeps_newline:
  assumes "\<exists>x\<in>set u. \<not> isWhiteSpace x" "\<exists>y\<in>set v. \<not> isWhiteSpace y"
  shows "newline \<in> set (clean_field (u @ newline # v))"
  unfolding clean_field_def
  by (rule strip_quotes_keeps) (simp_all add: trim_keeps_inner [OF assms] newline_def dquote_def)

text \<open>Inside quotes every character but the quote is appended to \<open>current\<close>.\<close>

lemma scan_line_append: "scan_line s (u @ v) = scan_line (scan_line s u) v"
  by (simp add: scan_line_def)

lemma scan_line_in_quotes:
  "inQuotes s \<Longrightarrow> dquote \<notin> set w \<Longrightarrow> scan_line s w = s\<lparr>current := current s @ w\<rparr>"
proof (induction w arbitrary: s)
  case Nil
  then show ?case by (simp add: scan_line_def)
next
  case (Cons c w)
  have "scan_char s c = s\<lparr>current := current s @ [c]\<rparr>"
    using Cons.prems by (auto simp: scan_char_def)
  moreover have "scan_line (s\<lparr>current := current s @ [c]\<rparr>) w =
                 s\<lparr>current := current s @ [c]\<rparr>\<lparr>current := current (s\<lparr>current := current s @ [c]\<rparr>) @ w\<rparr>"
    using Cons.prems by (intro Cons.IH) simp_all
  ultimately show ?case by (simp add: scan_line_def)
qed

lemma field_begun_char: "field_begun k s \<Longrightarrow> field_begun k (scan_char s c)"
  unfolding field_begun_def scan_char_def by auto

lemma field_begun_line: "field_begun k s \<Longrightarrow> field_begun k (scan_line s l)"
  unfolding scan_line_def
  by (induction l arbitrary: s) (simp_all add: field_begun_char)

lemma field_begun_newline:
  "field_begun k s \<Longrightarrow> field_begun k (s\<lparr>current := current s @ [newline]\<rparr>)"
  unfolding field_begun_def by auto

lemma field_begun_record:
  "field_begun k (scan_line s l) \<Longrightarrow> field_begun k (fst (scan_record (l # rest) s))"
proof (induction rest arbitrary: s l)
  case Nil
  then show ?case by (simp add: Let_def)
next
  case (Cons l' rest)
  show ?case
  proof (cases "inQuotes (scan_line s l)")
    case True
    have "field_begun k (scan_line ((scan_line s l)\<lparr>current := current (scan_line s l) @ [newline]\<rparr>) l')"
      by (intro field_begun_line field_begun_newline Cons.prems)
    then have "field_begun k
        (fst (scan_record (l' # rest) ((scan_line s l)\<lparr>current := current (scan_line s l) @ [newline]\<rparr>)))"
      by (rule Cons.IH)
    with True show ?thesis by (simp add: Let_def)
  next
    case False
    with Cons.prems show ?thesis by (simp add: Let_def)
  qed
qed

lemma field_begun_finished:
  "field_begun k s \<Longrightarrow> \<exists>z. clean_field (k @ z) \<in> set (finish_record s)"
  unfolding field_begun_def finish_record_def by auto

lemma logical_records_length: "length (logical_records ls) \<le> length ls"
proof (induction ls rule: logical_records.induct)
  case 1
  then show ?case by simp
next
  case (2 l ls)
  have "length (snd (scan_record (l # ls) scan_start)) \<le> length ls"
    using scan_record_shorter [of ls] by (simp add: Let_def)
  with 2 show ?case by (simp add: Let_def)
qed

lemma parse_rows_length: "length (parse_rows hs ls) \<le> length (logical_records ls)"
  by (simp add: parse_rows_filter)

lemma scan_record_rest: "length (snd (scan_record (l # ls) s)) \<le> length ls"
  using scan_record_shorter [of ls] by (simp add: Let_def)

lemma parse_rows_at_most_lines: "length (parse_rows hs ls) \<le> length ls"
  using parse_rows_length [of hs ls] logical_records_length [of ls] by simp

lemma two_line_scan:
  \<open>inQuotes (scan_line scan_start ''Hello,"line one is here'') \<and>
   current (scan_line scan_start ''Hello,"line one is here'') = ''line one is here''\<close>
  by code_simp

lemma two_line_parse:
  \<open>parseCSV ''subject,body\<newline>Hello,"line one is here\<newline>line two is here"'' =
     [[(''subject'', ''Hello''), (''body'', ''line one is here\<newline>line two is here'')]]\<close>
  by code_simp

lemma two_line_trimmed:
  \<open>inQuotes (scan_line scan_start ''Hello,"0123456789'') \<and>
   parseCSV ''subject,body\<newline>Hello,"0123456789\<newline>"'' =
     [[(''subject'', ''Hello''), (''body'', ''0123456789'')]]\<close>
  by code_simp

lemma two_line_dropped:
  \<open>inQuotes (scan_line scan_start '',"ab'') \<and> parseCSV ''subject,body\<newline>,"ab\<newline>cd"'' = []\<close>
  by code_simp

subsection \<open>The best match\<close>

text \<open>What the loop over the templates holds after any prefix of the registry.\<close>

lemma best_so_far:
  "(fst (foldl (consider_template txt) (None, 0) ts) = None \<and>
    snd (foldl (consider_template txt) (None, 0) ts) = 0 \<and>
    (\<forall>j<length ts. \<not> (minScore (ts ! j) \<le> template_score txt (ts ! j) \<and>
                        0 < template_score txt (ts ! j)))) \<or>
   (\<exists>i<length ts.
      fst (foldl (consider_template txt) (None, 0) ts) = Some (result_of txt (ts ! i)) \<and>
      snd (foldl (consider_template txt) (None, 0) ts) = template_score txt (ts ! i) \<and>
      minScore (ts ! i) \<le> template_score txt (ts ! i) \<and> 0 < template_score txt (ts ! i) \<and>
      (\<forall>j<length ts. minScore (ts ! j) \<le> template_score txt (ts ! j) \<longrightarrow>
           template_score txt (ts ! j) \<le> template_score txt (ts ! i)) \<and>
      (\<forall>j<i. minScore (ts ! j) \<le> template_score txt (ts ! j) \<longrightarrow>
           template_score txt (ts ! j) < template_score txt (ts ! i)))"
  (is "?none ts \<or> ?some ts")
proof (induction ts rule: rev_induct)
  case Nil
  then show ?case by simp
next
  case (snoc t ts)
  let ?st = "foldl (consider_template txt) (None, 0) ts"
  let ?sc = "template_score txt"
  have step: "foldl (consider_template txt) (None, 0) (ts @ [t]) = consider_template txt ?st t"
    by simp
  have nth_old: "(ts @ [t]) ! j = ts ! j" if "j < length ts" for j
    using that by (simp add: nth_append)
  have nth_new: "(ts @ [t]) ! length ts = t"
    by simp
  show ?case
  proof (cases "minScore t \<le> ?sc t \<and> snd ?st < ?sc t")
    case True
    then have new: "consider_template txt ?st t = (Some (result_of txt t), ?sc t)"
      by (simp add: consider_template_def Let_def result_of_def)
    have le: "?sc ((ts @ [t]) ! j) \<le> ?sc t" if "j < length (ts @ [t])"
      "minScore ((ts @ [t]) ! j) \<le> ?sc ((ts @ [t]) ! j)" for j
    proof (cases "j < length ts")
      case False
      with that have "j = length ts" by simp
      then show ?thesis by simp
    next
      case j: True
      from snoc.IH show ?thesis
      proof
        assume "?none ts"
        with j that(2) have "?sc (ts ! j) = 0" by (auto simp: nth_old)
        with j show ?thesis by (simp add: nth_old)
      next
        assume "?some ts"
        then obtain i where "i < length ts" "snd ?st = ?sc (ts ! i)"
          "\<forall>j<length ts. minScore (ts ! j) \<le> ?sc (ts ! j) \<longrightarrow> ?sc (ts ! j) \<le> ?sc (ts ! i)"
          by blast
        with j that(2) True show ?thesis by (auto simp: nth_old)
      qed
    qed
    have lt: "?sc ((ts @ [t]) ! j) < ?sc t" if "j < length ts"
      "minScore ((ts @ [t]) ! j) \<le> ?sc ((ts @ [t]) ! j)" for j
    proof -
      from snoc.IH show ?thesis
      proof
        assume "?none ts"
        with that have "?sc (ts ! j) = 0" by (auto simp: nth_old)
        with that(1) True show ?thesis by (simp add: nth_old)
      next
        assume "?some ts"
        then obtain i where "i < length ts" "snd ?st = ?sc (ts ! i)"
          "\<forall>j<length ts. minScore (ts ! j) \<le> ?sc (ts ! j) \<longrightarrow> ?sc (ts ! j) \<le> ?sc (ts ! i)"
          by blast
        with that True show ?thesis by (auto simp: nth_old)
      qed
    qed
    have "?some (ts @ [t])"
    proof (intro exI [of _ "length ts"] conjI allI impI)
      show "length ts < length (ts @ [t])" by simp
      show "fst (foldl (consider_template txt) (None, 0) (ts @ [t])) =
              Some (result_of txt ((ts @ [t]) ! length ts))"
        by (simp add: new)
      show "snd (foldl (consider_template txt) (None, 0) (ts @ [t])) = ?sc ((ts @ [t]) ! length ts)"
        by (simp add: new)
      show "minScore ((ts @ [t]) ! length ts) \<le> ?sc ((ts @ [t]) ! length ts)"
        using True by simp
      show "0 < ?sc ((ts @ [t]) ! length ts)"
        using True by simp
      show "?sc ((ts @ [t]) ! j) \<le> ?sc ((ts @ [t]) ! length ts)"
        if "j < length (ts @ [t])" "minScore ((ts @ [t]) ! j) \<le> ?sc ((ts @ [t]) ! j)" for j
        using le [OF that] by simp
      show "?sc ((ts @ [t]) ! j) < ?sc ((ts @ [t]) ! length ts)"
        if "j < length ts" "minScore ((ts @ [t]) ! j) \<le> ?sc ((ts @ [t]) ! j)" for j
        using lt [OF that] by simp
    qed
    then show ?thesis ..
  next
    case False
    then have old: "consider_template txt ?st t = ?st"
      by (auto simp: consider_template_def Let_def)
    from snoc.IH show ?thesis
    proof
      assume n: "?none ts"
      have "\<not> (minScore ((ts @ [t]) ! j) \<le> ?sc ((ts @ [t]) ! j) \<and> 0 < ?sc ((ts @ [t]) ! j))"
        if "j < length (ts @ [t])" for j
      proof (cases "j < length ts")
        case True
        with n show ?thesis by (simp add: nth_old)
      next
        case j: False
        with that have "j = length ts" by simp
        with False n show ?thesis by auto
      qed
      with n have "?none (ts @ [t])"
        by (simp only: step old) blast
      then show ?thesis ..
    next
      assume "?some ts"
      then obtain i where i: "i < length ts"
        "fst ?st = Some (result_of txt (ts ! i))" "snd ?st = ?sc (ts ! i)"
        "minScore (ts ! i) \<le> ?sc (ts ! i)" "0 < ?sc (ts ! i)"
        "\<forall>j<length ts. minScore (ts ! j) \<le> ?sc (ts ! j) \<longrightarrow> ?sc (ts ! j) \<le> ?sc (ts ! i)"
        "\<forall>j<i. minScore (ts ! j) \<le> ?sc (ts ! j) \<longrightarrow> ?sc (ts ! j) < ?sc (ts ! i)"
        by blast
      have all: "?sc ((ts @ [t]) ! j) \<le> ?sc (ts ! i)"
        if "j < length (ts @ [t])" "minScore ((ts @ [t]) ! j) \<le> ?sc ((ts @ [t]) ! j)" for j
      proof (cases "j < length ts")
        case True
        with i(6) that(2) show ?thesis by (simp add: nth_old)
      next
        case j: False
        with that have "j = length ts" by simp
        with False that(2) i(3) show ?thesis by auto
      qed
      have "?some (ts @ [t])"
      proof (intro exI [of _ i] conjI allI impI)
        show "i < length (ts @ [t])" using i(1) by simp
        show "fst (foldl (consider_template txt) (None, 0) (ts @ [t])) =
                Some (result_of txt ((ts @ [t]) ! i))"
          using i(1,2) by (simp add: old nth_append)
        show "snd (foldl (consider_template txt) (None, 0) (ts @ [t])) = ?sc ((ts @ [t]) ! i)"
          using i(1,3) by (simp add: old nth_append)
        show "minScore ((ts @ [t]) ! i) \<le> ?sc ((ts @ [t]) ! i)"
          using i(1,4) by (simp add: nth_append)
        show "0 < ?sc ((ts @ [t]) ! i)"
          using i(1,5) by (simp add: nth_append)
        show "?sc ((ts @ [t]) ! j) \<le> ?sc ((ts @ [t]) ! i)"
          if "j < length (ts @ [t])" "minScore ((ts @ [t]) ! j) \<le> ?sc ((ts @ [t]) ! j)" for j
          using all [OF that] i(1) by (simp add: nth_append)
        show "?sc ((ts @ [t]) ! j) < ?sc ((ts @ [t]) ! i)"
          if "j < i" "minScore ((ts @ [t]) ! j) \<le> ?sc ((ts @ [t]) ! j)" for j
          using that i(1,7) by (simp add: nth_append)
      qed
      then show ?thesis ..
    qed
  qed
qed

subsection \<open>The registry\<close>

lemmas template_defs = RESEARCH_BASED_def PROBLEM_SOLUTION_def MEETING_REQUEST_def FOLLOW_UP_def
  VALUE_PROP_def EVENT_BASED_def SOCIAL_PROOF_def QUESTION_OPENER_def

lemma template_names:
  "map name TEMPLATES =
     [''Research-Based Outreach'', ''Problem + Solution'', ''Direct Meeting Request'', ''Follow-Up'',
      ''Value Proposition'', ''Event-Based Outreach'', ''Social Proof Heavy'', ''Question Opener'']"
  by (simp add: TEMPLATES_def template_defs)

lemma template_minScores: "map minScore TEMPLATES = [4, 3, 3, 3, 3, 3, 3, 2]"
  by (simp add: TEMPLATES_def template_defs)

lemma template_names_distinct: "distinct (map name TEMPLATES)"
  unfolding template_names by simp

lemma minScore_positive: "t \<in> set TEMPLATES \<Longrightarrow> 0 < minScore t"
proof -
  assume "t \<in> set TEMPLATES"
  then have "minScore t \<in> set (map minScore TEMPLATES)" by simp
  then show ?thesis unfolding template_minScores by auto
qed

lemma fallback_type:
  "type_name (fallback txt) \<in> {''Short & Direct'', ''Long-Form Narrative'', ''Standard Outreach''}"
  by (simp add: fallback_def Let_def)

lemma fallback_not_template: "t \<in> set TEMPLATES \<Longrightarrow> type_name (fallback txt) \<noteq> name t"
proof
  assume "t \<in> set TEMPLATES" and eq: "type_name (fallback txt) = name t"
  then have "name t \<in> set (map name TEMPLATES)" by simp
  with eq have "type_name (fallback txt) \<in> set (map name TEMPLATES)" by simp
  with fallback_type [of "txt"] show False
    unfolding template_names by auto
qed

lemma best_match_cases:
  "(best_match TEMPLATES txt = None \<and> (\<forall>t\<in>set TEMPLATES. template_score txt t < minScore t)) \<or>
   (\<exists>i<length TEMPLATES.
      best_match TEMPLATES txt = Some (result_of txt (TEMPLATES ! i)) \<and>
      minScore (TEMPLATES ! i) \<le> template_score txt (TEMPLATES ! i) \<and>
      (\<forall>j<length TEMPLATES. minScore (TEMPLATES ! j) \<le> template_score txt (TEMPLATES ! j) \<longrightarrow>
           template_score txt (TEMPLATES ! j) \<le> template_score txt (TEMPLATES ! i)) \<and>
      (\<forall>j<i. minScore (TEMPLATES ! j) \<le> template_score txt (TEMPLATES ! j) \<longrightarrow>
           template_score txt (TEMPLATES ! j) < template_score txt (TEMPLATES ! i)))"
  using best_so_far [of "txt" TEMPLATES]
proof
  assume n: "fst (foldl (consider_template txt) (None, 0) TEMPLATES) = None \<and>
    snd (foldl (consider_template txt) (None, 0) TEMPLATES) = 0 \<and>
    (\<forall>j<length TEMPLATES. \<not> (minScore (TEMPLATES ! j) \<le> template_score txt (TEMPLATES ! j) \<and>
                        0 < template_score txt (TEMPLATES ! j)))"
  have "template_score txt t < minScore t" if "t \<in> set TEMPLATES" for t
  proof -
    from that obtain j where j: "j < length TEMPLATES" "TEMPLATES ! j = t"
      by (auto simp: in_set_conv_nth)
    with n have "\<not> (minScore t \<le> template_score txt t \<and> 0 < template_score txt t)" by blast
    with minScore_positive [OF that] show ?thesis by auto
  qed
  with n show ?thesis by (simp add: best_match_def)
next
  assume "\<exists>i<length TEMPLATES.
      fst (foldl (consider_template txt) (None, 0) TEMPLATES) = Some (result_of txt (TEMPLATES ! i)) \<and>
      snd (foldl (consider_template txt) (None, 0) TEMPLATES) = template_score txt (TEMPLATES ! i) \<and>
      minScore (TEMPLATES ! i) \<le> template_score txt (TEMPLATES ! i) \<and>
      0 < template_score txt (TEMPLATES ! i) \<and>
      (\<forall>j<length TEMPLATES. minScore (TEMPLATES ! j) \<le> template_score txt (TEMPLATES ! j) \<longrightarrow>
           template_score txt (TEMPLATES ! j) \<le> template_score txt (TEMPLATES ! i)) \<and>
      (\<forall>j<i. minScore (TEMPLATES ! j) \<le> template_score txt (TEMPLATES ! j) \<longrightarrow>
           template_score txt (TEMPLATES ! j) < template_score txt (TEMPLATES ! i))"
  then show ?thesis unfolding best_match_def by blast
qed

lemma follow_up_scores:
  "map (template_score (bodyWithoutSig ''following up'')) TEMPLATES = [0, 0, 0, 3, 0, 0, 0, 0] \<and>
   analyzeTemplate ''following up'' = result_of (bodyWithoutSig ''following up'') FOLLOW_UP"
  by code_simp

subsection \<open>Lower-cased headers\<close>

lemma lowerChar_not_upper: "\<not> isUpper (lowerChar c)"
  by (cases c) (auto simp: isUpper_Char lowerChar_Char low5_letter_def)

lemma toLowerCase_not_upper: "c \<in> set (toLowerCase s) \<Longrightarrow> \<not> isUpper c"
  by (auto simp: toLowerCase_def lowerChar_not_upper)

lemma parse_headers_lower: "h \<in> set (parse_headers line) \<Longrightarrow> \<forall>c\<in>set h. \<not> isUpper c"
  by (auto simp: parse_headers_def toLowerCase_not_upper)

lemma set_prop_keys: "fst ` set (set_prop k v r) \<subseteq> insert k (fst ` set r)"
  by (auto simp: set_prop_def dom_update)

lemma make_row_keys_from:
  "fst ` set (foldl (\<lambda>r (idx, header). set_prop header (value_at vs idx) r) r0 xs)
     \<subseteq> fst ` set r0 \<union> snd ` set xs"
proof (induction xs arbitrary: r0)
  case Nil
  then show ?case by simp
next
  case (Cons x xs)
  obtain idx h where x: "x = (idx, h)" by (cases x)
  have "fst ` set (foldl (\<lambda>r (idx, header). set_prop header (value_at vs idx) r)
                    (set_prop h (value_at vs idx) r0) xs)
          \<subseteq> fst ` set (set_prop h (value_at vs idx) r0) \<union> snd ` set xs"
    by (rule Cons.IH)
  also have "\<dots> \<subseteq> insert h (fst ` set r0) \<union> snd ` set xs"
    using set_prop_keys [of h "value_at vs idx" r0] by auto
  finally show ?case by (auto simp: x)
qed

lemma make_row_keys: "fst ` set (make_row hs vs) \<subseteq> set hs"
proof -
  have "snd ` set (enumerate 0 hs) \<subseteq> set hs"
    by (auto simp: in_set_enumerate_eq)
  with make_row_keys_from [of vs "[]" "enumerate 0 hs"] show ?thesis
    by (auto simp: make_row_def)
qed

lemma parse_rows_keys: "r \<in> set (parse_rows hs ls) \<Longrightarrow> fst ` set r \<subseteq> set hs"
proof -
  assume "r \<in> set (parse_rows hs ls)"
  then obtain s where "r = make_row hs (finish_record s)"
    by (auto simp: parse_rows_filter)
  then show ?thesis by (simp add: make_row_keys)
qed

lemma parseCSV_keys:
  "r \<in> set (parseCSV text) \<Longrightarrow> fst ` set r \<subseteq> set (parse_headers (hd (split newline text)))"
  by (auto simp: parseCSV_def Let_def split: if_splits dest: parse_rows_keys)

lemma parseCSV_lower_keyed: "r \<in> set (parseCSV text) \<Longrightarrow> lower_keyed r"
  unfolding lower_keyed_def using parseCSV_keys parse_headers_lower by blast

lemma upper_key_absent: "lower_keyed r \<Longrightarrow> \<exists>c\<in>set k. isUpper c \<Longrightarrow> get r k = None"
  unfolding lower_keyed_def get_def by (auto simp: map_of_eq_None_iff)

lemma capital_letters:
  "isUpper CHR ''B''" "isUpper CHR ''S''" "isUpper CHR ''O''" "isUpper CHR ''C''"
  "isUpper CHR ''R''" "isUpper CHR ''D''" "isUpper CHR ''T''" "isUpper CHR ''E''" "isUpper CHR ''L''"
  by (simp_all add: isUpper_Char low5_letter_def)

lemma mixed_case_absent:
  assumes "lower_keyed r" "k \<in> set mixed_case_aliases"
  shows "get r k = None"
proof -
  have "\<exists>c\<in>set k. isUpper c"
    using assms(2) unfolding mixed_case_aliases_def by (auto simp: capital_letters)
  with assms(1) show ?thesis by (rule upper_key_absent)
qed

subsection \<open>The lower-case variant\<close>

lemma lower_aliases:
  assumes "lower_keyed r"
  shows "first_truthy r body_aliases = first_truthy r body_aliases_lower"
    and "first_truthy r subject_aliases = first_truthy r subject_aliases_lower"
    and "first_truthy r date_aliases = first_truthy r date_aliases_lower"
    and "first_truthy r recipient_aliases = first_truthy r recipient_aliases_lower"
    and "first_truthy r [''opens'', ''Opens'', ''opened'', ''Opened''] =
         first_truthy r [''opens'', ''opened'']"
    and "first_truthy r [''clicks'', ''Clicks'', ''clicked'', ''Clicked''] =
         first_truthy r [''clicks'', ''clicked'']"
    and "first_truthy r [''replies'', ''Replies'', ''replied'', ''Replied''] =
         first_truthy r [''replies'', ''replied'']"
proof -
  have none: "get r k = None" if "k \<in> set mixed_case_aliases" for k
    using assms that by (rule mixed_case_absent)
  have n: "get r ''Body'' = None" "get r ''Email Body'' = None" "get r ''Subject'' = None"
    "get r ''Subject Line'' = None" "get r ''Opens'' = None" "get r ''Opened'' = None"
    "get r ''Clicks'' = None" "get r ''Clicked'' = None" "get r ''Replies'' = None"
    "get r ''Replied'' = None" "get r ''Date'' = None" "get r ''Sent Date'' = None"
    "get r ''To'' = None" "get r ''Recipient'' = None"
    by (rule none, simp add: mixed_case_aliases_def)+
  show "first_truthy r body_aliases = first_truthy r body_aliases_lower"
    by (simp add: body_aliases_def body_aliases_lower_def n split: option.splits)
  show "first_truthy r subject_aliases = first_truthy r subject_aliases_lower"
    by (simp add: subject_aliases_def subject_aliases_lower_def n split: option.splits)
  show "first_truthy r date_aliases = first_truthy r date_aliases_lower"
    by (simp add: date_aliases_def date_aliases_lower_def n split: option.splits)
  show "first_truthy r recipient_aliases = first_truthy r recipient_aliases_lower"
    by (simp add: recipient_aliases_def recipient_aliases_lower_def n split: option.splits)
  show "first_truthy r [''opens'', ''Opens'', ''opened'', ''Opened''] =
         first_truthy r [''opens'', ''opened'']"
    by (simp add: n split: option.splits)
  show "first_truthy r [''clicks'', ''Clicks'', ''clicked'', ''Clicked''] =
         first_truthy r [''clicks'', ''clicked'']"
    by (simp add: n split: option.splits)
  show "first_truthy r [''replies'', ''Replies'', ''replied'', ''Replied''] =
         first_truthy r [''replies'', ''replied'']"
    by (simp add: n split: option.splits)
qed

lemma calculateMetrics_lower_eq:
  "lower_keyed r \<Longrightarrow> calculateMetrics r = calculateMetrics_lower r"
  by (simp only: calculateMetrics_def calculateMetrics_lower_def lower_aliases)

lemma add_email_lower_eq: "lower_keyed r \<Longrightarrow> add_email st r = add_email_lower st r"
  by (simp only: add_email_def add_email_lower_def lower_aliases calculateMetrics_lower_eq)

lemma foldl_add_email_lower_eq:
  "\<forall>r\<in>set rows. lower_keyed r \<Longrightarrow> foldl add_email st rows = foldl add_email_lower st rows"
  by (induction rows arbitrary: st) (simp_all add: add_email_lower_eq)

lemma overall_of_lower_eq:
  assumes "\<forall>r\<in>set rows. lower_keyed r"
  shows "overall_of rows = overall_of_lower rows"
proof -
  have "filter (\<lambda>e. opened (calculateMetrics e)) rows =
        filter (\<lambda>e. opened (calculateMetrics_lower e)) rows"
    "filter (\<lambda>e. clicked (calculateMetrics e)) rows =
        filter (\<lambda>e. clicked (calculateMetrics_lower e)) rows"
    "filter (\<lambda>e. replied (calculateMetrics e)) rows =
        filter (\<lambda>e. replied (calculateMetrics_lower e)) rows"
    using assms by (auto intro!: filter_cong simp: calculateMetrics_lower_eq)
  then show ?thesis by (simp add: overall_of_def overall_of_lower_def)
qed

lemma analyzeEmails_lower_eq:
  "\<forall>r\<in>set rows. lower_keyed r \<Longrightarrow> analyzeEmails rows = analyzeEmails_lower rows"
  by (simp add: analyzeEmails_def analyzeEmails_lower_def foldl_add_email_lower_eq
        overall_of_lower_eq)

lemma mixed_header_parse:
  \<open>parseCSV ''Subject,Body,Opens\<newline>Hi,following up,3'' =
     [[(''subject'', ''Hi''), (''body'', ''following up''), (''opens'', ''3'')]]\<close>
  by code_simp

subsection \<open>The first piece of a split\<close>

lemma split_re_from_nonempty: "split_re_from ic r cur skip prev s \<noteq> []"
  by (induction s arbitrary: cur skip prev) (simp_all split: nat.splits option.splits)

lemma signature_no_empty_match: "match_len True signature_re None [] = None"
  by code_simp

lemma signature_split_nonempty: "split_re True signature_re s \<noteq> []"
  by (simp add: split_re_def split_re_from_nonempty signature_no_empty_match)

section \<open>The end-to-end scenario\<close>

text \<open>
  C1.  The scenario file has one data row.  The reader gives one row; the classifier puts
  its body into Research-Based Outreach with score 6, from the first three indicators with
  weight 2 each (the fourth does not match); the report has this one group with count 1,
  opens 1 and open rate "100.0", and one email overall.
\<close>

theorem scenario_end_to_end:
  "(let rows = parseCSV scenario_csv;
        t = analyzeTemplate scenario_body;
        r = analyzeEmails rows
    in map (\<lambda>row. get row ''body'') rows = [Some scenario_body] \<and>
       type_name t = ''Research-Based Outreach'' \<and> 4 \<le> score t \<and> score t = 6 \<and>
       map (\<lambda>i. (test True (pattern i) (bodyWithoutSig scenario_body), weight i))
           (indicators RESEARCH_BASED) = [(True, 2), (True, 2), (True, 2), (False, 1)] \<and>
       map g_name (templateGroups r) = [''Research-Based Outreach''] \<and>
       map count (templateGroups r) = [1] \<and>
       map opens (templateGroups r) = [1] \<and>
       map openRate (templateGroups r) = [Text ''100.0''] \<and>
       totalEmails (overall r) = 1)"
  by code_simp

section \<open>Rows and groups\<close>

text \<open>
  C2.  The counts of the groups add up to the number of rows, and their opens, clicks and
  replies to the totals of the report, which count the rows with the flag set.  One row
  changes one group only, the one named by its classification, whose count goes up by one.
\<close>

theorem each_row_in_one_group:
  "sum_list (map count (templateGroups (analyzeEmails es))) = totalEmails (overall (analyzeEmails es)) \<and>
   sum_list (map opens (templateGroups (analyzeEmails es))) = totalOpens (overall (analyzeEmails es)) \<and>
   sum_list (map clicks (templateGroups (analyzeEmails es))) = totalClicks (overall (analyzeEmails es)) \<and>
   sum_list (map replies (templateGroups (analyzeEmails es))) = totalReplies (overall (analyzeEmails es)) \<and>
   totalEmails (overall (analyzeEmails es)) = length es \<and>
   totalOpens (overall (analyzeEmails es)) = length (filter (\<lambda>e. opened (calculateMetrics e)) es) \<and>
   totalClicks (overall (analyzeEmails es)) = length (filter (\<lambda>e. clicked (calculateMetrics e)) es) \<and>
   totalReplies (overall (analyzeEmails es)) = length (filter (\<lambda>e. replied (calculateMetrics e)) es) \<and>
   (\<exists>g. map_of (p_groups (add_email st e))
            (type_name (analyzeTemplate (or_else (first_truthy e body_aliases) []))) = Some g \<and>
        count g =
          (case map_of (p_groups st)
                  (type_name (analyzeTemplate (or_else (first_truthy e body_aliases) []))) of
             None \<Rightarrow> 0 | Some g0 \<Rightarrow> count g0) + 1) \<and>
   (\<forall>k. k \<noteq> type_name (analyzeTemplate (or_else (first_truthy e body_aliases) [])) \<longrightarrow>
        map_of (p_groups (add_email st e)) k = map_of (p_groups st) k)"
proof -
  have "\<exists>g. map_of (p_groups (add_email st e))
            (type_name (analyzeTemplate (or_else (first_truthy e body_aliases) []))) = Some g \<and>
        count g =
          (case map_of (p_groups st)
                  (type_name (analyzeTemplate (or_else (first_truthy e body_aliases) []))) of
             None \<Rightarrow> 0 | Some g0 \<Rightarrow> count g0) + 1"
    by (simp add: add_email_group Let_def count_email_fields new_group_fields split: option.splits)
  moreover have "\<forall>k. k \<noteq> type_name (analyzeTemplate (or_else (first_truthy e body_aliases) [])) \<longrightarrow>
        map_of (p_groups (add_email st e)) k = map_of (p_groups st) k"
    by (simp add: add_email_group Let_def)
  ultimately show ?thesis
    by (simp only: report_sums overall_totals simp_thms)
qed

theorem each_row_in_one_group_witness:
  "sum_list (map count (templateGroups (analyzeEmails [[(''subject'', ''Hi'')], []]))) = 2 \<and>
   map_of (p_groups (add_email pass_start [(''subject'', ''Hi'')])) ''Follow-Up'' = None"
proof -
  have t: "type_name (analyzeTemplate (or_else (first_truthy [(''subject'', ''Hi'')] body_aliases) []))
             = ''Empty/No Body''"
    by (simp add: body_aliases_def get_def or_else_def analyzeTemplate_def)
  show ?thesis
    using each_row_in_one_group [of "[[(''subject'', ''Hi'')], []]" pass_start "[(''subject'', ''Hi'')]"]
    by (simp add: t pass_start_def)
qed

section \<open>Doubled quotes\<close>

text \<open>
  C3.  The row \<open>"Hi, I said ""hello"""\<close> parses to a single field, but every double quote
  toggles \<open>inQuotes\<close> and none is copied: the value is \<open>Hi, I said hello\<close>, without the
  embedded quotes.
\<close>

theorem doubled_quotes_are_dropped:
  \<open>parseCSV quoted_csv = [[(''body'', ''Hi, I said hello'')]] \<and>
   finish_record (scan_line scan_start ''"Hi, I said ""hello"""'') = [''Hi, I said hello'']\<close>
  by code_simp

section \<open>Unparsable metric values\<close>

text \<open>
  C4 (as amended).  Each raw count is \<open>parseInt\<close> of the first alias value that is a
  non-empty string, the aliases taken in the order lower-case, capitalized, past participle
  lower-case, past participle capitalized.  When that value is not parsable the raw count is
  \<open>NaN\<close> (not 0) and the flag is false; later aliases are not read.  The count is \<open>0\<close>
  by default only when every alias is missing or empty.  The function has no failing path.
\<close>

theorem unparsable_metric_is_NaN:
  "(first_truthy email ks = Some v \<longleftrightarrow>
      (\<exists>i<length ks. get email (ks ! i) = Some v \<and> v \<noteq> [] \<and>
         (\<forall>j<i. get email (ks ! j) = None \<or> get email (ks ! j) = Some []))) \<and>
   m_opens (calculateMetrics email) =
     parseInt (or_else (first_truthy email [''opens'', ''Opens'', ''opened'', ''Opened'']) ''0'') \<and>
   m_clicks (calculateMetrics email) =
     parseInt (or_else (first_truthy email [''clicks'', ''Clicks'', ''clicked'', ''Clicked'']) ''0'') \<and>
   m_replies (calculateMetrics email) =
     parseInt (or_else (first_truthy email [''replies'', ''Replies'', ''replied'', ''Replied'']) ''0'') \<and>
   (first_truthy email [''opens'', ''Opens'', ''opened'', ''Opened''] = Some v \<and> parseInt v = None \<longrightarrow>
      m_opens (calculateMetrics email) = None \<and> \<not> opened (calculateMetrics email)) \<and>
   (first_truthy email [''clicks'', ''Clicks'', ''clicked'', ''Clicked''] = Some v \<and> parseInt v = None \<longrightarrow>
      m_clicks (calculateMetrics email) = None \<and> \<not> clicked (calculateMetrics email)) \<and>
   (first_truthy email [''replies'', ''Replies'', ''replied'', ''Replied''] = Some v \<and> parseInt v = None \<longrightarrow>
      m_replies (calculateMetrics email) = None \<and> \<not> replied (calculateMetrics email)) \<and>
   (first_truthy email [''opens'', ''Opens'', ''opened'', ''Opened''] = None \<longrightarrow>
      m_opens (calculateMetrics email) = Some 0 \<and> \<not> opened (calculateMetrics email)) \<and>
   (first_truthy email [''clicks'', ''Clicks'', ''clicked'', ''Clicked''] = None \<longrightarrow>
      m_clicks (calculateMetrics email) = Some 0 \<and> \<not> clicked (calculateMetrics email)) \<and>
   (first_truthy email [''replies'', ''Replies'', ''replied'', ''Replied''] = None \<longrightarrow>
      m_replies (calculateMetrics email) = Some 0 \<and> \<not> replied (calculateMetrics email))"
  using first_truthy_Some_iff [of email ks v]
  by (simp add: calculateMetrics_def Let_def or_else_def positive_def parseInt_0
        del: first_truthy.simps)

theorem unparsable_metric_is_NaN_witness:
  "m_opens (calculateMetrics [(''opens'', ''abc''), (''Opens'', ''5'')]) = None \<and>
   \<not> opened (calculateMetrics [(''opens'', ''abc''), (''Opens'', ''5'')]) \<and>
   m_clicks (calculateMetrics [(''opens'', ''abc''), (''Opens'', ''5'')]) = Some 0"
proof -
  have o: "first_truthy [(''opens'', ''abc''), (''Opens'', ''5'')]
             [''opens'', ''Opens'', ''opened'', ''Opened''] = Some ''abc''"
    by (simp add: get_def)
  have c: "first_truthy [(''opens'', ''abc''), (''Opens'', ''5'')]
             [''clicks'', ''Clicks'', ''clicked'', ''Clicked''] = None"
    by (simp add: get_def)
  note th = unparsable_metric_is_NaN [of "[(''opens'', ''abc''), (''Opens'', ''5'')]" "[]" "''abc''"]
  have "m_opens (calculateMetrics [(''opens'', ''abc''), (''Opens'', ''5'')]) = None \<and>
        \<not> opened (calculateMetrics [(''opens'', ''abc''), (''Opens'', ''5'')])"
    using th o parseInt_abc by blast
  moreover have "m_clicks (calculateMetrics [(''opens'', ''abc''), (''Opens'', ''5'')]) = Some 0"
    using th c by blast
  ultimately show ?thesis by simp
qed

theorem unparsable_metric_counterexample:
  "m_opens (calculateMetrics [(''opens'', ''abc'')]) \<noteq> Some 0 \<and>
   m_opens (calculateMetrics [(''opens'', ''abc'')]) = None \<and>
   m_opens (calculateMetrics [(''opens'', ''abc''), (''Opens'', ''5'')]) = None"
  by (simp add: calculateMetrics_def Let_def get_def or_else_def parseInt_abc)

section \<open>Which rows are kept\<close>

text \<open>
  C5.  The rows that \<open>parseCSV\<close> returns are the rows of the logical records, in order,
  that pass the retention rule: body, subject or recipient non-empty after trimming, and a
  non-empty body of at least 10 characters.  So a row with all three empty is dropped, a
  row with a body of 5 characters and no subject or recipient is dropped, and a row with
  subject \<open>Hi\<close> and no body or recipient is kept.
\<close>

theorem rows_kept_iff_retained:
  "parseCSV text =
     (if length (split newline text) < 2 then []
      else filter retained
             (map (\<lambda>s. make_row (parse_headers (hd (split newline text))) (finish_record s))
                  (logical_records (tl (split newline text))))) \<and>
   (field_of r ''body'' = [] \<and> field_of r ''subject'' = [] \<and> field_of r ''recipient'' = [] \<longrightarrow>
      \<not> retained r) \<and>
   (length (trim (field_of r ''body'')) = 5 \<and> field_of r ''subject'' = [] \<and>
    field_of r ''recipient'' = [] \<longrightarrow> \<not> retained r) \<and>
   (field_of r ''subject'' = ''Hi'' \<and> field_of r ''body'' = [] \<and> field_of r ''recipient'' = [] \<longrightarrow>
      retained r)"
proof -
  have hi: "trim ''Hi'' \<noteq> []"
    by (simp add: trim_def isWhiteSpace_def)
  show ?thesis
    by (auto simp: parseCSV_def Let_def parse_rows_filter retained_def trim_Nil hi)
qed

theorem rows_kept_iff_retained_witness:
  \<open>parseCSV ''subject,body,recipient\<newline>Hi,,'' =
     [[(''subject'', ''Hi''), (''body'', ''''), (''recipient'', '''')]] \<and>
   retained [(''subject'', ''Hi''), (''body'', ''''), (''recipient'', '''')] \<and>
   parseCSV ''body,subject,recipient\<newline>,,'' = [] \<and>
   \<not> retained [(''body'', ''''), (''subject'', ''''), (''recipient'', '''')] \<and>
   parseCSV ''body\<newline>short'' = [] \<and>
   \<not> retained [(''body'', ''short'')]\<close>
proof -
  have five: "length (trim ''short'') = 5"
    by (simp add: trim_def isWhiteSpace_def)
  have a: "retained [(''subject'', ''Hi''), (''body'', ''''), (''recipient'', '''')]"
    using rows_kept_iff_retained [of "[]" "[(''subject'', ''Hi''), (''body'', ''''), (''recipient'', '''')]"]
    by (simp add: field_of_def get_def)
  have b: "\<not> retained [(''body'', ''''), (''subject'', ''''), (''recipient'', '''')]"
    using rows_kept_iff_retained [of "[]" "[(''body'', ''''), (''subject'', ''''), (''recipient'', '''')]"]
    by (simp add: field_of_def get_def)
  have c: "\<not> retained [(''body'', ''short'')]"
    using rows_kept_iff_retained [of "[]" "[(''body'', ''short'')]"] five
    by (simp add: field_of_def get_def)
  from a b c show ?thesis
    by (simp add: parse_kept parse_dropped_empty parse_dropped_short)
qed

section \<open>The best matching template\<close>

text \<open>
  C6.  For a body that is not blank, with \<open>txt\<close> the text before the signature: when some
  template of the registry reaches its minimum score, the classifier returns the result of
  a template that reaches its minimum, whose score no qualifying template exceeds and no
  earlier qualifying template equals; when none does, it returns the fallback.  A result
  that carries the name of a registry template comes with that template's score, which is
  at least its minimum.
\<close>

theorem best_template_wins:
  "emailBody \<noteq> [] \<and> trim emailBody \<noteq> [] \<longrightarrow>
   ((\<exists>t\<in>set TEMPLATES. minScore t \<le> template_score (bodyWithoutSig emailBody) t) \<longrightarrow>
      (\<exists>i<length TEMPLATES.
         analyzeTemplate emailBody = result_of (bodyWithoutSig emailBody) (TEMPLATES ! i) \<and>
         minScore (TEMPLATES ! i) \<le> template_score (bodyWithoutSig emailBody) (TEMPLATES ! i) \<and>
         (\<forall>j<length TEMPLATES.
            minScore (TEMPLATES ! j) \<le> template_score (bodyWithoutSig emailBody) (TEMPLATES ! j) \<longrightarrow>
            template_score (bodyWithoutSig emailBody) (TEMPLATES ! j)
              \<le> template_score (bodyWithoutSig emailBody) (TEMPLATES ! i)) \<and>
         (\<forall>j<i.
            minScore (TEMPLATES ! j) \<le> template_score (bodyWithoutSig emailBody) (TEMPLATES ! j) \<longrightarrow>
            template_score (bodyWithoutSig emailBody) (TEMPLATES ! j)
              < template_score (bodyWithoutSig emailBody) (TEMPLATES ! i)))) \<and>
   ((\<forall>t\<in>set TEMPLATES. template_score (bodyWithoutSig emailBody) t < minScore t) \<longrightarrow>
      analyzeTemplate emailBody = fallback (bodyWithoutSig emailBody)) \<and>
   (t \<in> set TEMPLATES \<and> type_name (analyzeTemplate emailBody) = name t \<longrightarrow>
      minScore t \<le> template_score (bodyWithoutSig emailBody) t \<and>
      score (analyzeTemplate emailBody) = template_score (bodyWithoutSig emailBody) t)"
proof
  assume body: "emailBody \<noteq> [] \<and> trim emailBody \<noteq> []"
  let ?txt = "bodyWithoutSig emailBody"
  let ?sc = "template_score ?txt"
  have at: "analyzeTemplate emailBody =
              (case best_match TEMPLATES ?txt of None \<Rightarrow> fallback ?txt | Some m \<Rightarrow> m)"
    using body by (simp add: analyzeTemplate_def)
  from best_match_cases [of ?txt]
  show "((\<exists>t\<in>set TEMPLATES. minScore t \<le> ?sc t) \<longrightarrow>
      (\<exists>i<length TEMPLATES.
         analyzeTemplate emailBody = result_of ?txt (TEMPLATES ! i) \<and>
         minScore (TEMPLATES ! i) \<le> ?sc (TEMPLATES ! i) \<and>
         (\<forall>j<length TEMPLATES. minScore (TEMPLATES ! j) \<le> ?sc (TEMPLATES ! j) \<longrightarrow>
            ?sc (TEMPLATES ! j) \<le> ?sc (TEMPLATES ! i)) \<and>
         (\<forall>j<i. minScore (TEMPLATES ! j) \<le> ?sc (TEMPLATES ! j) \<longrightarrow>
            ?sc (TEMPLATES ! j) < ?sc (TEMPLATES ! i)))) \<and>
   ((\<forall>t\<in>set TEMPLATES. ?sc t < minScore t) \<longrightarrow> analyzeTemplate emailBody = fallback ?txt) \<and>
   (t \<in> set TEMPLATES \<and> type_name (analyzeTemplate emailBody) = name t \<longrightarrow>
      minScore t \<le> ?sc t \<and> score (analyzeTemplate emailBody) = ?sc t)"
  proof
    assume n: "best_match TEMPLATES ?txt = None \<and> (\<forall>t\<in>set TEMPLATES. ?sc t < minScore t)"
    then have fb: "analyzeTemplate emailBody = fallback ?txt"
      by (simp add: at)
    have "\<not> (\<exists>t\<in>set TEMPLATES. minScore t \<le> ?sc t)"
      using n by (auto simp: not_le)
    moreover have "\<not> (t \<in> set TEMPLATES \<and> type_name (analyzeTemplate emailBody) = name t)"
      using fallback_not_template [of t ?txt] by (auto simp: fb)
    ultimately show ?thesis using fb by blast
  next
    assume "\<exists>i<length TEMPLATES.
      best_match TEMPLATES ?txt = Some (result_of ?txt (TEMPLATES ! i)) \<and>
      minScore (TEMPLATES ! i) \<le> ?sc (TEMPLATES ! i) \<and>
      (\<forall>j<length TEMPLATES. minScore (TEMPLATES ! j) \<le> ?sc (TEMPLATES ! j) \<longrightarrow>
           ?sc (TEMPLATES ! j) \<le> ?sc (TEMPLATES ! i)) \<and>
      (\<forall>j<i. minScore (TEMPLATES ! j) \<le> ?sc (TEMPLATES ! j) \<longrightarrow>
           ?sc (TEMPLATES ! j) < ?sc (TEMPLATES ! i))"
    then obtain i where i: "i < length TEMPLATES"
      "best_match TEMPLATES ?txt = Some (result_of ?txt (TEMPLATES ! i))"
      "minScore (TEMPLATES ! i) \<le> ?sc (TEMPLATES ! i)"
      "\<forall>j<length TEMPLATES. minScore (TEMPLATES ! j) \<le> ?sc (TEMPLATES ! j) \<longrightarrow>
           ?sc (TEMPLATES ! j) \<le> ?sc (TEMPLATES ! i)"
      "\<forall>j<i. minScore (TEMPLATES ! j) \<le> ?sc (TEMPLATES ! j) \<longrightarrow>
           ?sc (TEMPLATES ! j) < ?sc (TEMPLATES ! i)"
      by blast
    have res: "analyzeTemplate emailBody = result_of ?txt (TEMPLATES ! i)"
      by (simp add: at i(2))
    have a: "\<exists>i<length TEMPLATES.
         analyzeTemplate emailBody = result_of ?txt (TEMPLATES ! i) \<and>
         minScore (TEMPLATES ! i) \<le> ?sc (TEMPLATES ! i) \<and>
         (\<forall>j<length TEMPLATES. minScore (TEMPLATES ! j) \<le> ?sc (TEMPLATES ! j) \<longrightarrow>
            ?sc (TEMPLATES ! j) \<le> ?sc (TEMPLATES ! i)) \<and>
         (\<forall>j<i. minScore (TEMPLATES ! j) \<le> ?sc (TEMPLATES ! j) \<longrightarrow>
            ?sc (TEMPLATES ! j) < ?sc (TEMPLATES ! i))"
      using i res by blast
    have b: "\<not> (\<forall>t\<in>set TEMPLATES. ?sc t < minScore t)"
      using i(1,3) by (auto simp: not_less intro: nth_mem)
    have c: "minScore t \<le> ?sc t \<and> score (analyzeTemplate emailBody) = ?sc t"
      if "t \<in> set TEMPLATES \<and> type_name (analyzeTemplate emailBody) = name t"
    proof -
      from that obtain j where j: "j < length TEMPLATES" "TEMPLATES ! j = t"
        by (auto simp: in_set_conv_nth)
      from that have "name (TEMPLATES ! i) = name (TEMPLATES ! j)"
        by (simp add: res result_of_def j)
      then have "i = j"
        using nth_eq_iff_index_eq [OF template_names_distinct, of i j] i(1) j(1) by simp
      with i(3) j show ?thesis by (simp add: res result_of_def)
    qed
    from a b c show ?thesis by blast
  qed
qed

theorem best_template_wins_witness:
  "analyzeTemplate ''following up'' = result_of (bodyWithoutSig ''following up'') FOLLOW_UP \<and>
   minScore FOLLOW_UP \<le> template_score (bodyWithoutSig ''following up'') FOLLOW_UP \<and>
   score (analyzeTemplate ''following up'') = template_score (bodyWithoutSig ''following up'') FOLLOW_UP"
proof -
  have nb: "''following up'' \<noteq> [] \<and> trim ''following up'' \<noteq> []"
    by (simp add: trim_def isWhiteSpace_def)
  have t: "FOLLOW_UP \<in> set TEMPLATES"
    by (simp add: TEMPLATES_def)
  have n: "type_name (analyzeTemplate ''following up'') = name FOLLOW_UP"
    using follow_up_scores by (simp add: result_of_def)
  show ?thesis
    using best_template_wins [of "''following up''" FOLLOW_UP] nb t n follow_up_scores
    by blast
qed

section \<open>Quoted fields over several lines\<close>

text \<open>
  C7 (as amended).  When a physical line ends inside quotes and another line follows, the
  reader appends a newline and scans the next line into the same logical record: the two
  lines are one record, which gives at most one row (the retention rule may drop it) and
  never two.  When the open field has a non-white-space character before the line end and
  another on the next line before the closing quote, a field of the record contains the
  newline; a newline at the start or the end of the field is removed by \<open>trim\<close>.
\<close>

theorem quoted_newline_joins_lines:
  "(inQuotes (scan_line s l1) \<longrightarrow>
      scan_record (l1 # l2 # rest) s =
        scan_record (l2 # rest) ((scan_line s l1)\<lparr>current := current (scan_line s l1) @ [newline]\<rparr>) \<and>
      length (snd (scan_record (l1 # l2 # rest) s)) \<le> length rest) \<and>
   (inQuotes (scan_line scan_start l1) \<longrightarrow>
      length (parse_rows hs (l1 # l2 # rest)) \<le> 1 + length rest \<and>
      length (parse_rows hs [l1, l2]) \<le> 1) \<and>
   (inQuotes (scan_line s l1) \<and> l2 = w @ dquote # t \<and> dquote \<notin> set w \<and>
    (\<exists>x\<in>set (current (scan_line s l1)). \<not> isWhiteSpace x) \<and> (\<exists>y\<in>set w. \<not> isWhiteSpace y) \<longrightarrow>
      (\<exists>v\<in>set (finish_record (fst (scan_record (l1 # l2 # rest) s))). newline \<in> set v))"
proof (intro conjI impI)
  assume q: "inQuotes (scan_line s l1)"
  then show join: "scan_record (l1 # l2 # rest) s =
      scan_record (l2 # rest) ((scan_line s l1)\<lparr>current := current (scan_line s l1) @ [newline]\<rparr>)"
    by (simp add: Let_def)
  show "length (snd (scan_record (l1 # l2 # rest) s)) \<le> length rest"
    unfolding join by (rule scan_record_rest)
next
  assume q: "inQuotes (scan_line scan_start l1)"
  have more: "length (snd (scan_record (l1 # l2 # ls) scan_start)) \<le> length ls" for ls
  proof -
    have "scan_record (l1 # l2 # ls) scan_start =
      scan_record (l2 # ls)
        ((scan_line scan_start l1)\<lparr>current := current (scan_line scan_start l1) @ [newline]\<rparr>)"
      using q by (simp add: Let_def)
    then show ?thesis by (simp only: scan_record_rest)
  qed
  have rows: "length (parse_rows hs (l1 # l2 # ls)) \<le> 1 + length ls" for ls
  proof -
    have "length (parse_rows hs (l1 # l2 # ls)) \<le>
            1 + length (parse_rows hs (snd (scan_record (l1 # l2 # ls) scan_start)))"
      by (simp add: Let_def)
    also have "\<dots> \<le> 1 + length (snd (scan_record (l1 # l2 # ls) scan_start))"
      using parse_rows_at_most_lines by simp
    also have "\<dots> \<le> 1 + length ls"
      using more by simp
    finally show ?thesis .
  qed
  show "length (parse_rows hs (l1 # l2 # rest)) \<le> 1 + length rest"
    by (rule rows)
  show "length (parse_rows hs [l1, l2]) \<le> 1"
    using rows [of "[]"] by simp
next
  assume h: "inQuotes (scan_line s l1) \<and> l2 = w @ dquote # t \<and> dquote \<notin> set w \<and>
    (\<exists>x\<in>set (current (scan_line s l1)). \<not> isWhiteSpace x) \<and> (\<exists>y\<in>set w. \<not> isWhiteSpace y)"
  define s1 where "s1 = (scan_line s l1)\<lparr>current := current (scan_line s l1) @ [newline]\<rparr>"
  define k where "k = current (scan_line s l1) @ newline # w"
  have join: "scan_record (l1 # l2 # rest) s = scan_record (l2 # rest) s1"
    using h by (simp add: Let_def s1_def)
  have "scan_line s1 w = s1\<lparr>current := current s1 @ w\<rparr>"
    using h by (intro scan_line_in_quotes) (simp_all add: s1_def)
  then have "current (scan_char (scan_line s1 w) dquote) = k"
    by (simp add: scan_char_def s1_def k_def)
  then have "field_begun k (scan_char (scan_line s1 w) dquote)"
    by (simp add: field_begun_def)
  then have "field_begun k (scan_line (scan_char (scan_line s1 w) dquote) t)"
    by (rule field_begun_line)
  moreover have "scan_line s1 l2 = scan_line (scan_char (scan_line s1 w) dquote) t"
    using h by (simp add: scan_line_def)
  ultimately have "field_begun k (scan_line s1 l2)"
    by simp
  then have "field_begun k (fst (scan_record (l2 # rest) s1))"
    by (rule field_begun_record)
  then obtain z where z: "clean_field (k @ z) \<in> set (finish_record (fst (scan_record (l2 # rest) s1)))"
    using field_begun_finished by blast
  have "newline \<in> set (clean_field (current (scan_line s l1) @ newline # (w @ z)))"
    using h by (intro clean_field_keeps_newline) auto
  then have "newline \<in> set (clean_field (k @ z))"
    by (simp add: k_def)
  with z show "\<exists>v\<in>set (finish_record (fst (scan_record (l1 # l2 # rest) s))). newline \<in> set v"
    unfolding join by blast
qed

theorem quoted_newline_joins_lines_witness:
  \<open>length (parse_rows [''subject'', ''body''] [''Hello,"line one is here'', ''line two is here"'']) \<le> 1 \<and>
   (\<exists>v\<in>set (finish_record (fst (scan_record [''Hello,"line one is here'', ''line two is here"'']
                                  scan_start))). newline \<in> set v) \<and>
   parseCSV ''subject,body\<newline>Hello,"line one is here\<newline>line two is here"'' =
     [[(''subject'', ''Hello''), (''body'', ''line one is here\<newline>line two is here'')]]\<close>
proof -
  note th = quoted_newline_joins_lines [of scan_start \<open>''Hello,"line one is here''\<close>
      \<open>''line two is here"''\<close> "[]" "[''subject'', ''body'']" "''line two is here''" "[]"]
  have q: \<open>inQuotes (scan_line scan_start ''Hello,"line one is here'')\<close>
    using two_line_scan by simp
  have l2: \<open>''line two is here"'' = ''line two is here'' @ dquote # []\<close>
    by (simp add: dquote_def)
  have w: "dquote \<notin> set ''line two is here''"
    by (simp add: dquote_def)
  have x: \<open>\<exists>x\<in>set (current (scan_line scan_start ''Hello,"line one is here'')). \<not> isWhiteSpace x\<close>
    using two_line_scan by (simp add: isWhiteSpace_def)
  have y: "\<exists>y\<in>set ''line two is here''. \<not> isWhiteSpace y"
    by (simp add: isWhiteSpace_def)
  have a: \<open>length (parse_rows [''subject'', ''body''] [''Hello,"line one is here'', ''line two is here"'']) \<le> 1\<close>
    using th q by blast
  have b: \<open>\<exists>v\<in>set (finish_record (fst (scan_record [''Hello,"line one is here'', ''line two is here"'']
                                  scan_start))). newline \<in> set v\<close>
    using th q l2 w x y by blast
  from a b two_line_parse show ?thesis by simp
qed

theorem quoted_newline_counterexample:
  \<open>inQuotes (scan_line scan_start ''Hello,"0123456789'') \<and>
   parseCSV ''subject,body\<newline>Hello,"0123456789\<newline>"'' =
     [[(''subject'', ''Hello''), (''body'', ''0123456789'')]] \<and>
   newline \<notin> set ''Hello'' \<and> newline \<notin> set ''0123456789'' \<and>
   inQuotes (scan_line scan_start '',"ab'') \<and>
   parseCSV ''subject,body\<newline>,"ab\<newline>cd"'' = []\<close>
  using two_line_trimmed two_line_dropped by (simp add: newline_def)

section \<open>Binary counting\<close>

text \<open>
  C8.  A row whose opens value is greater than 0, whatever it is, sets the flag, adds one
  to the opens of its group and one to the total opens of the report; the same holds for
  clicks and replies.  Two rows that differ only in a positive opens value (12 and 1, say)
  give the same groups, totals and buckets; only the raw count kept in the list of
  per-email details differs.
\<close>

theorem binary_counting:
  "(positive (m_opens (calculateMetrics e)) \<longrightarrow>
      opened (calculateMetrics e) \<and>
      totalOpens (overall (analyzeEmails (xs @ e # ys))) =
        totalOpens (overall (analyzeEmails (xs @ ys))) + 1 \<and>
      (\<exists>g. map_of (p_groups (add_email st e))
               (type_name (analyzeTemplate (or_else (first_truthy e body_aliases) []))) = Some g \<and>
           opens g =
             (case map_of (p_groups st)
                     (type_name (analyzeTemplate (or_else (first_truthy e body_aliases) []))) of
                None \<Rightarrow> 0 | Some g0 \<Rightarrow> opens g0) + 1)) \<and>
   (positive (m_clicks (calculateMetrics e)) \<longrightarrow>
      clicked (calculateMetrics e) \<and>
      totalClicks (overall (analyzeEmails (xs @ e # ys))) =
        totalClicks (overall (analyzeEmails (xs @ ys))) + 1 \<and>
      (\<exists>g. map_of (p_groups (add_email st e))
               (type_name (analyzeTemplate (or_else (first_truthy e body_aliases) []))) = Some g \<and>
           clicks g =
             (case map_of (p_groups st)
                     (type_name (analyzeTemplate (or_else (first_truthy e body_aliases) []))) of
                None \<Rightarrow> 0 | Some g0 \<Rightarrow> clicks g0) + 1)) \<and>
   (positive (m_replies (calculateMetrics e)) \<longrightarrow>
      replied (calculateMetrics e) \<and>
      totalReplies (overall (analyzeEmails (xs @ e # ys))) =
        totalReplies (overall (analyzeEmails (xs @ ys))) + 1 \<and>
      (\<exists>g. map_of (p_groups (add_email st e))
               (type_name (analyzeTemplate (or_else (first_truthy e body_aliases) []))) = Some g \<and>
           replies g =
             (case map_of (p_groups st)
                     (type_name (analyzeTemplate (or_else (first_truthy e body_aliases) []))) of
                None \<Rightarrow> 0 | Some g0 \<Rightarrow> replies g0) + 1)) \<and>
   (get e1 ''opens'' = Some v1 \<and> get e2 ''opens'' = Some v2 \<and>
    (\<forall>k. k \<noteq> ''opens'' \<longrightarrow> get e2 k = get e1 k) \<and>
    positive (parseInt v1) \<and> positive (parseInt v2) \<longrightarrow>
      map tallies (templateGroups (analyzeEmails (xs @ e1 # ys))) =
        map tallies (templateGroups (analyzeEmails (xs @ e2 # ys))) \<and>
      overall (analyzeEmails (xs @ e1 # ys)) = overall (analyzeEmails (xs @ e2 # ys)) \<and>
      subjectAnalysis (analyzeEmails (xs @ e1 # ys)) = subjectAnalysis (analyzeEmails (xs @ e2 # ys)))"
proof -
  have flags: "opened (calculateMetrics e) = positive (m_opens (calculateMetrics e))"
    "clicked (calculateMetrics e) = positive (m_clicks (calculateMetrics e))"
    "replied (calculateMetrics e) = positive (m_replies (calculateMetrics e))"
    by (simp_all add: calculateMetrics_def Let_def)
  have a: "positive (m_opens (calculateMetrics e)) \<longrightarrow>
      opened (calculateMetrics e) \<and>
      totalOpens (overall (analyzeEmails (xs @ e # ys))) =
        totalOpens (overall (analyzeEmails (xs @ ys))) + 1 \<and>
      (\<exists>g. map_of (p_groups (add_email st e))
               (type_name (analyzeTemplate (or_else (first_truthy e body_aliases) []))) = Some g \<and>
           opens g =
             (case map_of (p_groups st)
                     (type_name (analyzeTemplate (or_else (first_truthy e body_aliases) []))) of
                None \<Rightarrow> 0 | Some g0 \<Rightarrow> opens g0) + 1)"
    by (simp add: flags(1) [symmetric] overall_totals add_email_group Let_def count_email_fields
          new_group_fields split: option.splits)
  have b: "positive (m_clicks (calculateMetrics e)) \<longrightarrow>
      clicked (calculateMetrics e) \<and>
      totalClicks (overall (analyzeEmails (xs @ e # ys))) =
        totalClicks (overall (analyzeEmails (xs @ ys))) + 1 \<and>
      (\<exists>g. map_of (p_groups (add_email st e))
               (type_name (analyzeTemplate (or_else (first_truthy e body_aliases) []))) = Some g \<and>
           clicks g =
             (case map_of (p_groups st)
                     (type_name (analyzeTemplate (or_else (first_truthy e body_aliases) []))) of
                None \<Rightarrow> 0 | Some g0 \<Rightarrow> clicks g0) + 1)"
    by (simp add: flags(2) [symmetric] overall_totals add_email_group Let_def count_email_fields
          new_group_fields split: option.splits)
  have c: "positive (m_replies (calculateMetrics e)) \<longrightarrow>
      replied (calculateMetrics e) \<and>
      totalReplies (overall (analyzeEmails (xs @ e # ys))) =
        totalReplies (overall (analyzeEmails (xs @ ys))) + 1 \<and>
      (\<exists>g. map_of (p_groups (add_email st e))
               (type_name (analyzeTemplate (or_else (first_truthy e body_aliases) []))) = Some g \<and>
           replies g =
             (case map_of (p_groups st)
                     (type_name (analyzeTemplate (or_else (first_truthy e body_aliases) []))) of
                None \<Rightarrow> 0 | Some g0 \<Rightarrow> replies g0) + 1)"
    by (simp add: flags(3) [symmetric] overall_totals add_email_group Let_def count_email_fields
          new_group_fields split: option.splits)
  have d: "get e1 ''opens'' = Some v1 \<and> get e2 ''opens'' = Some v2 \<and>
    (\<forall>k. k \<noteq> ''opens'' \<longrightarrow> get e2 k = get e1 k) \<and>
    positive (parseInt v1) \<and> positive (parseInt v2) \<longrightarrow>
      map tallies (templateGroups (analyzeEmails (xs @ e1 # ys))) =
        map tallies (templateGroups (analyzeEmails (xs @ e2 # ys))) \<and>
      overall (analyzeEmails (xs @ e1 # ys)) = overall (analyzeEmails (xs @ e2 # ys)) \<and>
      subjectAnalysis (analyzeEmails (xs @ e1 # ys)) = subjectAnalysis (analyzeEmails (xs @ e2 # ys))"
  proof
    assume h: "get e1 ''opens'' = Some v1 \<and> get e2 ''opens'' = Some v2 \<and>
      (\<forall>k. k \<noteq> ''opens'' \<longrightarrow> get e2 k = get e1 k) \<and>
      positive (parseInt v1) \<and> positive (parseInt v2)"
    then have "same_reading e1 e2"
      by (intro same_reading_opens [of e1 v1 e2 v2]) simp_all
    then have "list_all2 same_reading (xs @ e1 # ys) (xs @ e2 # ys)"
      by (simp add: list_all2_appendI list_all2_same_reading_refl)
    then show "map tallies (templateGroups (analyzeEmails (xs @ e1 # ys))) =
        map tallies (templateGroups (analyzeEmails (xs @ e2 # ys))) \<and>
      overall (analyzeEmails (xs @ e1 # ys)) = overall (analyzeEmails (xs @ e2 # ys)) \<and>
      subjectAnalysis (analyzeEmails (xs @ e1 # ys)) = subjectAnalysis (analyzeEmails (xs @ e2 # ys))"
      by (rule report_same)
  qed
  from a b c d show ?thesis by (intro conjI)
qed

theorem binary_counting_witness:
  "totalOpens (overall (analyzeEmails [[(''opens'', ''12'')]])) = 1 \<and>
   totalOpens (overall (analyzeEmails [[(''opens'', ''1'')]])) = 1 \<and>
   map tallies (templateGroups (analyzeEmails [[(''opens'', ''12'')]])) =
     map tallies (templateGroups (analyzeEmails [[(''opens'', ''1'')]]))"
proof -
  have m12: "positive (m_opens (calculateMetrics [(''opens'', ''12'')]))"
    by (simp add: calculateMetrics_def Let_def get_def or_else_def parseInt_12 positive_def)
  have m1: "positive (m_opens (calculateMetrics [(''opens'', ''1'')]))"
    by (simp add: calculateMetrics_def Let_def get_def or_else_def parseInt_1 positive_def)
  have z: "totalOpens (overall (analyzeEmails [])) = 0"
    by (simp add: overall_totals)
  note th12 = binary_counting [of "[(''opens'', ''12'')]" "[]" "[]" pass_start
        "[(''opens'', ''12'')]" "''12''" "[(''opens'', ''1'')]" "''1''"]
  note th1 = binary_counting [of "[(''opens'', ''1'')]" "[]" "[]" pass_start
        "[(''opens'', ''12'')]" "''12''" "[(''opens'', ''1'')]" "''1''"]
  have a: "totalOpens (overall (analyzeEmails [[(''opens'', ''12'')]])) = 1"
    using th12 [THEN conjunct1] m12 z by simp
  have b: "totalOpens (overall (analyzeEmails [[(''opens'', ''1'')]])) = 1"
    using th1 [THEN conjunct1] m1 z by simp
  have c: "map tallies (templateGroups (analyzeEmails [[(''opens'', ''12'')]])) =
     map tallies (templateGroups (analyzeEmails [[(''opens'', ''1'')]]))"
    using th12 [THEN conjunct2, THEN conjunct2, THEN conjunct2]
    by (simp add: get_def parseInt_12 parseInt_1 positive_def)
  from a b c show ?thesis by simp
qed

section \<open>Aliases with capital letters\<close>

text \<open>
  C9.  The property names of a row of \<open>parseCSV\<close> are among the lower-cased headers and
  contain no capital letter, so no alias with a capital letter (\<open>Body\<close>, \<open>Email Body\<close>,
  \<open>Subject\<close>, \<open>Opens\<close>, \<open>Sent Date\<close>, \<open>To\<close>, \<open>Recipient\<close>, ...) is a property of it,
  and \<open>analyzeEmails\<close> on the rows of \<open>parseCSV\<close> gives the same report as the variant
  that reads the lower-case aliases only.
\<close>

theorem mixed_case_aliases_never_match:
  "(\<forall>r\<in>set (parseCSV text).
      fst ` set r \<subseteq> set (parse_headers (hd (split newline text))) \<and>
      (\<forall>k\<in>fst ` set r. \<forall>c\<in>set k. \<not> isUpper c) \<and>
      (\<forall>k\<in>set mixed_case_aliases. get r k = None)) \<and>
   (\<forall>h\<in>set (parse_headers line). \<forall>c\<in>set h. \<not> isUpper c) \<and>
   analyzeEmails (parseCSV text) = analyzeEmails_lower (parseCSV text)"
proof -
  have rows: "\<forall>r\<in>set (parseCSV text). lower_keyed r"
    by (simp add: parseCSV_lower_keyed)
  have "\<forall>r\<in>set (parseCSV text).
      fst ` set r \<subseteq> set (parse_headers (hd (split newline text))) \<and>
      (\<forall>k\<in>fst ` set r. \<forall>c\<in>set k. \<not> isUpper c) \<and>
      (\<forall>k\<in>set mixed_case_aliases. get r k = None)"
    using rows parseCSV_keys mixed_case_absent unfolding lower_keyed_def by blast
  moreover have "\<forall>h\<in>set (parse_headers line). \<forall>c\<in>set h. \<not> isUpper c"
    using parse_headers_lower by blast
  moreover have "analyzeEmails (parseCSV text) = analyzeEmails_lower (parseCSV text)"
    using rows by (rule analyzeEmails_lower_eq)
  ultimately show ?thesis by blast
qed

theorem mixed_case_aliases_never_match_witness:
  \<open>parseCSV ''Subject,Body,Opens\<newline>Hi,following up,3'' =
     [[(''subject'', ''Hi''), (''body'', ''following up''), (''opens'', ''3'')]] \<and>
   get [(''subject'', ''Hi''), (''body'', ''following up''), (''opens'', ''3'')] ''Body'' = None \<and>
   analyzeEmails [[(''subject'', ''Hi''), (''body'', ''following up''), (''opens'', ''3'')]] =
     analyzeEmails_lower [[(''subject'', ''Hi''), (''body'', ''following up''), (''opens'', ''3'')]]\<close>
proof -
  note th = mixed_case_aliases_never_match
    [of \<open>''Subject,Body,Opens\<newline>Hi,following up,3''\<close> \<open>''Subject,Body,Opens''\<close>]
  have b: "''Body'' \<in> set mixed_case_aliases"
    by (simp add: mixed_case_aliases_def)
  have "get [(''subject'', ''Hi''), (''body'', ''following up''), (''opens'', ''3'')] ''Body'' = None"
    using th b unfolding mixed_header_parse by simp
  moreover have
    "analyzeEmails [[(''subject'', ''Hi''), (''body'', ''following up''), (''opens'', ''3'')]] =
     analyzeEmails_lower [[(''subject'', ''Hi''), (''body'', ''following up''), (''opens'', ''3'')]]"
    using th unfolding mixed_header_parse by simp
  ultimately show ?thesis using mixed_header_parse by simp
qed

section \<open>Subject buckets\<close>

text \<open>
  C10.  One row adds one to the total of one question bucket and of one length bucket and
  leaves the other bucket of each pair alone, so each pair of totals adds up to the number
  of rows.  A row with no subject (every subject alias missing or empty) goes to
  \<open>withoutQuestion\<close> and \<open>shortSubject\<close>.
\<close>

theorem subject_buckets_partition:
  "((total (withQuestion (p_subjects (add_email st e))) = total (withQuestion (p_subjects st)) + 1 \<and>
     withoutQuestion (p_subjects (add_email st e)) = withoutQuestion (p_subjects st)) \<or>
    (total (withoutQuestion (p_subjects (add_email st e))) = total (withoutQuestion (p_subjects st)) + 1 \<and>
     withQuestion (p_subjects (add_email st e)) = withQuestion (p_subjects st))) \<and>
   ((total (shortSubject (p_subjects (add_email st e))) = total (shortSubject (p_subjects st)) + 1 \<and>
     longSubject (p_subjects (add_email st e)) = longSubject (p_subjects st)) \<or>
    (total (longSubject (p_subjects (add_email st e))) = total (longSubject (p_subjects st)) + 1 \<and>
     shortSubject (p_subjects (add_email st e)) = shortSubject (p_subjects st))) \<and>
   total (withQuestion (subjectAnalysis (analyzeEmails es))) +
     total (withoutQuestion (subjectAnalysis (analyzeEmails es))) = length es \<and>
   total (shortSubject (subjectAnalysis (analyzeEmails es))) +
     total (longSubject (subjectAnalysis (analyzeEmails es))) = length es \<and>
   (first_truthy e subject_aliases = None \<longrightarrow>
      total (withoutQuestion (p_subjects (add_email st e))) = total (withoutQuestion (p_subjects st)) + 1 \<and>
      total (shortSubject (p_subjects (add_email st e))) = total (shortSubject (p_subjects st)) + 1 \<and>
      withQuestion (p_subjects (add_email st e)) = withQuestion (p_subjects st) \<and>
      longSubject (p_subjects (add_email st e)) = longSubject (p_subjects st))"
  by (simp add: report_buckets add_email_subjects count_subject_def Let_def tally_total
        analyzeSubject_def or_else_def)

theorem subject_buckets_partition_witness:
  "total (withoutQuestion (p_subjects (add_email pass_start [(''subject'', '''')]))) = 1 \<and>
   total (shortSubject (p_subjects (add_email pass_start [(''subject'', '''')]))) = 1 \<and>
   total (withQuestion (p_subjects (add_email pass_start [(''subject'', '''')]))) = 0 \<and>
   total (longSubject (p_subjects (add_email pass_start [(''subject'', '''')]))) = 0"
proof -
  have none: "first_truthy [(''subject'', '''')] subject_aliases = None"
    by (simp add: subject_aliases_def get_def)
  show ?thesis
    using subject_buckets_partition [of pass_start "[(''subject'', '''')]" "[]"]
    by (simp add: none pass_start_def empty_bucket_def)
qed

end
